theory Spec2Isabelle
  imports Complex_Main "HOL-Library.Word" "HOL-Library.Sublist" "HOL-Library.Multiset"
begin

section \<open>JavaScript strings\<close>

text \<open>
  A JavaScript string is a sequence of UTF-16 code units. The regular expressions of the
  services carry no \<open>u\<close> flag, so they too work on code units. ASCII literals of the
  source are written through \<open>js\<close>.
\<close>

type_synonym jschar = "16 word"
type_synonym jsstring = "jschar list"

definition js :: "string \<Rightarrow> jsstring" where
  "js s = map of_char s"

text \<open>
  The characters that \<open>String.prototype.trim\<close> strips and that the class \<open>\s\<close>
  matches: ECMAScript's WhiteSpace and LineTerminator code points.
\<close>

definition isWhiteSpace :: "jschar \<Rightarrow> bool" where
  "isWhiteSpace c \<longleftrightarrow>
     c \<in> set [0x9, 0xA, 0xB, 0xC, 0xD, 0x20, 0xA0, 0x1680, 0x2000, 0x2001, 0x2002, 0x2003,
              0x2004, 0x2005, 0x2006, 0x2007, 0x2008, 0x2009, 0x200A, 0x2028, 0x2029,
              0x202F, 0x205F, 0x3000, 0xFEFF]"

definition trim :: "jsstring \<Rightarrow> jsstring" where
  "trim s = rev (dropWhile isWhiteSpace (rev (dropWhile isWhiteSpace s)))"

text \<open>\<open>occurs p s\<close>: the string \<open>p\<close> is a substring of \<open>s\<close> (\<open>s.includes(p)\<close>).\<close>

fun occurs :: "'c list \<Rightarrow> 'c list \<Rightarrow> bool" where
  "occurs p [] = (p = [])"
| "occurs p (x # xs) = (prefix p (x # xs) \<or> occurs p xs)"

section \<open>Vector index identifiers (vectordb.service.js)\<close>

text \<open>
  \<open>upsertFiles\<close> and \<open>deleteFiles\<close> both compute the identifier of a file as the
  template \<open>${projectId}_${path.replace(/\//g, '_')}\<close>: every \<open>/\<close> of the path becomes
  \<open>_\<close>.
\<close>

definition replaceSlashes :: "jsstring \<Rightarrow> jsstring" where
  "replaceSlashes p = map (\<lambda>c. if c = of_char CHR ''/'' then of_char CHR ''_'' else c) p"

definition fileId :: "jsstring \<Rightarrow> jsstring \<Rightarrow> jsstring" where
  "fileId projectId p = projectId @ js ''_'' @ replaceSlashes p"

section \<open>Optional string values\<close>

text \<open>
  A property that holds a string may also be \<open>undefined\<close> or \<open>null\<close>. The source reads
  such properties through \<open>v || d\<close>, which yields the default \<open>d\<close> for the three falsy
  values \<open>undefined\<close>, \<open>null\<close> and the empty string.
\<close>

datatype jsopt = Undefined | Null | Str jsstring

fun orElse :: "jsopt \<Rightarrow> jsstring \<Rightarrow> jsstring" where
  "orElse (Str s) d = (if s = [] then d else s)"
| "orElse _ d = d"

section \<open>Prompt assembly (anythingllm.service.js, buildEnrichedPrompt)\<close>

text \<open>
  A context file as \<open>queryRelevantFiles\<close> reconstructs it from a query result: path and
  language come from the stored metadata, the content is the stored document, the score
  is the distance reported by the vector store.
\<close>

record ContextFile =
  cpath :: jsstring
  clanguage :: jsopt
  ccontent :: jsstring
  score :: real

record RetrievedContext =
  files :: "ContextFile list"
  "structure" :: jsstring

text \<open>The body of the \<open>forEach\<close> callback: four appends to \<open>prompt\<close>.\<close>

definition appendFile :: "jsstring \<Rightarrow> ContextFile \<Rightarrow> jsstring" where
  "appendFile prompt f =
     (let prompt = prompt @ js ''### '' @ cpath f @ js ''\<newline>'';
          prompt = prompt @ js ''```'' @ orElse (clanguage f) (js ''text'') @ js ''\<newline>'';
          prompt = prompt @ ccontent f @ js ''\<newline>'';
          prompt = prompt @ js ''```\<newline>\<newline>''
      in prompt)"

text \<open>
  \<open>buildEnrichedPrompt\<close>, append by append as the source has it: the header, the files,
  the structure, the ten appends under the comment "Add instructions for file
  generation", the mode-specific block (\<open>options.mode\<close> is compared with \<open>===\<close>), and
  the user request.
\<close>

definition buildEnrichedPrompt :: "jsstring \<Rightarrow> RetrievedContext \<Rightarrow> jsopt \<Rightarrow> jsstring" where
  "buildEnrichedPrompt userMessage context mode =
     (let prompt = js ''# Project Context\<newline>\<newline>'';
          prompt = (if files context \<noteq> []
                    then foldl appendFile (prompt @ js ''## Relevant Files:\<newline>\<newline>'') (files context)
                    else prompt);
          prompt = (if structure context \<noteq> []
                    then prompt @ js ''## Project Structure:\<newline>```\<newline>'' @ structure context
                           @ js ''\<newline>```\<newline>\<newline>''
                    else prompt);
          prompt = prompt @ js ''# Instructions\<newline>\<newline>'';
          prompt = prompt @ js ''You are helping develop a software project. When generating code:\<newline>'';
          prompt = prompt @ js ''1. Generate complete, production-ready code\<newline>'';
          prompt = prompt @ js ''2. Follow the existing project structure and conventions\<newline>'';
          prompt = prompt @ js ''3. Include all necessary imports and dependencies\<newline>'';
          prompt = prompt @ js ''4. Wrap each file in XML tags with path and language:\<newline>\<newline>'';
          prompt = prompt @ js ''<file path=\"src/components/Button.jsx\" language=\"javascript\">\<newline>'';
          prompt = prompt @ js ''// file content here\<newline>'';
          prompt = prompt @ js ''</file>\<newline>\<newline>'';
          prompt = prompt @ js ''5. You can generate multiple files in one response\<newline>'';
          prompt = prompt @ js ''6. Make sure code is ready to run without modifications\<newline>\<newline>'';
          prompt = (if mode = Str (js ''refactor'')
                    then prompt @ js ''Focus on refactoring existing code while maintaining functionality.\<newline>\<newline>''
                    else if mode = Str (js ''test'')
                    then prompt @ js ''Generate comprehensive tests for the code.\<newline>\<newline>''
                    else prompt);
          prompt = prompt @ js ''# User Request\<newline>\<newline>'' @ userMessage
      in prompt)"

section \<open>The project structure outline (vectordb.service.js)\<close>

subsection \<open>Objects as ordered property lists\<close>

text \<open>
  \<open>buildFileTree\<close> builds a plain object whose property values are \<open>null\<close> (a file) or
  another such object (a directory). An object is modelled by the list of its own
  properties in the order \<open>Object.entries\<close> enumerates them: keys that are array indices
  first, in ascending numeric order, then the other keys in creation order. A value is
  \<open>None\<close> for \<open>null\<close> and \<open>Some t\<close> for an object.
\<close>

datatype tree = Tree "(jsstring \<times> tree option) list"

definition isDigit :: "jschar \<Rightarrow> bool" where
  "isDigit c \<longleftrightarrow> 0x30 \<le> c \<and> c \<le> 0x39"

definition indexValue :: "jsstring \<Rightarrow> int" where
  "indexValue k = foldl (\<lambda>n c. 10 * n + (uint c - 48)) 0 k"

text \<open>An array index is the canonical decimal form of an integer below \<open>2^32 - 1\<close>.\<close>

definition isArrayIndex :: "jsstring \<Rightarrow> bool" where
  "isArrayIndex k \<longleftrightarrow>
     k \<noteq> [] \<and> list_all isDigit k \<and> (k = js ''0'' \<or> hd k \<noteq> of_char CHR ''0'') \<and>
     indexValue k < 4294967295"

fun insertIndexKey :: "jsstring \<Rightarrow> 'v \<Rightarrow> (jsstring \<times> 'v) list \<Rightarrow> (jsstring \<times> 'v) list" where
  "insertIndexKey k v [] = [(k, v)]"
| "insertIndexKey k v ((k', v') # ps) =
     (if isArrayIndex k' \<and> indexValue k' < indexValue k
      then (k', v') # insertIndexKey k v ps
      else (k, v) # (k', v') # ps)"

text \<open>
  The assignment \<open>obj[k] = v\<close>: an existing property keeps its place, a new one is
  placed as the enumeration order requires.
\<close>

definition setProp :: "jsstring \<Rightarrow> 'v \<Rightarrow> (jsstring \<times> 'v) list \<Rightarrow> (jsstring \<times> 'v) list" where
  "setProp k v ps =
     (if k \<in> fst ` set ps then map (\<lambda>(k', v'). if k' = k then (k', v) else (k', v')) ps
      else if isArrayIndex k then insertIndexKey k v ps
      else ps @ [(k, v)])"

subsection \<open>buildFileTree\<close>

text \<open>\<open>s.split(c)\<close> for a one-character separator.\<close>

fun splitOn :: "'c \<Rightarrow> 'c list \<Rightarrow> 'c list list" where
  "splitOn c [] = [[]]"
| "splitOn c (x # xs) =
     (if x = c then [] # splitOn c xs
      else (case splitOn c xs of [] \<Rightarrow> [[x]] | w # ws \<Rightarrow> (x # w) # ws))"

definition pathParts :: "jsstring \<Rightarrow> jsstring list" where
  "pathParts p = filter (\<lambda>part. part \<noteq> []) (splitOn (of_char CHR ''/'') p)"

text \<open>
  A plain object inherits the properties of \<open>Object.prototype\<close>, and \<open>current[part]\<close>
  reads through to them when \<open>current\<close> has no own property \<open>part\<close>. These are the
  names \<open>Object.prototype\<close> carries in Node.js; each holds a function, or for
  \<open>__proto__\<close> the prototype object itself, so each reads as a truthy value that is not
  \<open>null\<close>. The model takes \<open>Object.prototype\<close> to carry no other properties when
  \<open>buildFileTree\<close> starts.
\<close>

definition objectPrototypeNames :: "jsstring list" where
  "objectPrototypeNames =
     [js ''constructor'', js ''__defineGetter__'', js ''__defineSetter__'', js ''hasOwnProperty'',
      js ''__lookupGetter__'', js ''__lookupSetter__'', js ''isPrototypeOf'',
      js ''propertyIsEnumerable'', js ''toString'', js ''valueOf'', js ''__proto__'',
      js ''toLocaleString'']"

text \<open>
  The inner \<open>forEach\<close> over the parts of one path, with \<open>current\<close> the object the
  cursor stands on.
  \<^item> An own property that holds an object is truthy: nothing is assigned and the cursor
    moves into it.
  \<^item> An own property that holds \<open>null\<close>, and a part that is neither an own nor an
    inherited property (\<open>undefined\<close>), are falsy: the property is assigned, \<open>null\<close> for
    the last part and a fresh object otherwise, and the cursor moves into the value unless
    it is \<open>null\<close>.
  \<^item> A part that is not an own property but an inherited one reads as a built-in
    function or object: nothing is assigned and the cursor moves onto the built-in. When
    this is the last part the tree is left as it is. When more parts follow, the code
    goes on reading and assigning properties of the built-in, which may throw and may add
    properties to \<open>Object.prototype\<close>: what the tree becomes for the rest of the call
    depends on the host's built-in objects, and the result is \<open>None\<close>.
\<close>

fun insertParts :: "jsstring list \<Rightarrow> tree \<Rightarrow> tree option" where
  "insertParts [] current = Some current"
| "insertParts (part # rest) (Tree ps) =
     (case map_of ps part of
        Some (Some dir) \<Rightarrow>
          map_option (\<lambda>d. Tree (setProp part (Some d) ps)) (insertParts rest dir)
      | Some None \<Rightarrow>
          if rest = [] then Some (Tree (setProp part None ps))
          else map_option (\<lambda>d. Tree (setProp part (Some d) ps)) (insertParts rest (Tree []))
      | None \<Rightarrow>
          if part \<in> set objectPrototypeNames then (if rest = [] then Some (Tree ps) else None)
          else if rest = [] then Some (Tree (setProp part None ps))
          else map_option (\<lambda>d. Tree (setProp part (Some d) ps)) (insertParts rest (Tree [])))"

text \<open>The outer \<open>forEach\<close> over the paths; \<open>None\<close> once a path has left the tree.\<close>

definition buildFileTree :: "jsstring list \<Rightarrow> tree option" where
  "buildFileTree paths =
     foldl (\<lambda>t p. case t of None \<Rightarrow> None | Some tree \<Rightarrow> insertParts (pathParts p) tree)
       (Some (Tree [])) paths"

subsection \<open>treeToString\<close>

text \<open>
  \<open>Array.prototype.sort\<close> is a stable sort. It is modelled by insertion sort, which for a
  comparator that is a total preorder returns what every stable sort returns.
\<close>

fun insertBy :: "('a \<Rightarrow> 'a \<Rightarrow> int) \<Rightarrow> 'a \<Rightarrow> 'a list \<Rightarrow> 'a list" where
  "insertBy cmp x [] = [x]"
| "insertBy cmp x (y # ys) = (if cmp x y \<le> 0 then x # y # ys else y # insertBy cmp x ys)"

definition sortBy :: "('a \<Rightarrow> 'a \<Rightarrow> int) \<Rightarrow> 'a list \<Rightarrow> 'a list" where
  "sortBy cmp xs = foldr (insertBy cmp) xs []"

text \<open>
  The comparator of \<open>treeToString\<close>. \<open>localeCompare\<close> is the host's collation; it is the
  parameter \<open>lc\<close>.
\<close>

definition entryCmp ::
  "(jsstring \<Rightarrow> jsstring \<Rightarrow> int) \<Rightarrow> jsstring \<times> tree option \<Rightarrow> jsstring \<times> tree option \<Rightarrow> int" where
  "entryCmp lc a b =
     (if snd a = None \<and> snd b \<noteq> None then 1
      else if snd a \<noteq> None \<and> snd b = None then - 1
      else lc (fst a) (fst b))"

text \<open>The two icons, as UTF-16 surrogate pairs: U+1F4C4 (page) and U+1F4C1 (folder).\<close>

definition icon :: "tree option \<Rightarrow> jsstring" where
  "icon v = (if v = None then [0xD83D, 0xDCC4] else [0xD83D, 0xDCC1])"

lemma set_insertBy: "set (insertBy cmp x ys) = insert x (set ys)"
  by (induction ys) auto

lemma set_sortBy: "set (sortBy cmp xs) = set xs"
  by (induction xs) (simp_all add: sortBy_def set_insertBy)

lemma tree_size_child:
  "(k, Some t) \<in> set ps \<Longrightarrow> size t < size (Tree ps)"
  by (induction ps) auto

function treeToString :: "(jsstring \<Rightarrow> jsstring \<Rightarrow> int) \<Rightarrow> tree \<Rightarrow> jsstring \<Rightarrow> jsstring" where
  "treeToString lc (Tree ps) indent =
     concat (map (\<lambda>(key, v).
                   indent @ icon v @ js '' '' @ key @ js ''\<newline>''
                   @ (case v of None \<Rightarrow> [] | Some t \<Rightarrow> treeToString lc t (indent @ js ''  '')))
                 (sortBy (entryCmp lc) ps))"
  by pat_completeness auto
termination
  by (relation "measure (\<lambda>(lc, t, indent). size t)")
     (auto simp: set_sortBy dest: tree_size_child)

section \<open>The vector store\<close>

text \<open>
  Modelled from the spec: the vector store client (\<open>chromadb\<close>, a third-party package
  that is not part of the repository). Section 6 of the specification gives its
  interface (\<open>getOrCreateCollection\<close>, \<open>upsert\<close>, \<open>query\<close>, \<open>delete\<close>,
  \<open>deleteCollection\<close>), section 3 its contract: an entry is a stored document text with
  metadata \<open>{path, language, lastModified}\<close>, upserting an existing identifier replaces
  the entry, deleting an identifier that is not indexed is a no-op. The embedding vectors
  stay inside the store. A store is either unreachable, in which case every call of the
  client throws, or holds named collections; it does not change its reachability during
  one call of the service. A collection is the list of its entries, each under its
  identifier. The specification does not say what the client does with a batch that
  repeats an identifier; the model applies a batch in order.
\<close>

datatype cerror = ConnectionError | CollectionNotFound | QueryError

record Metadata =
  mpath :: jsstring
  mlanguage :: jsstring
  lastModified :: int

record Entry =
  document :: jsstring
  metadata :: Metadata

type_synonym collection = "(jsstring \<times> Entry) list"

datatype vstore = Unreachable | Up "jsstring \<Rightarrow> collection option"

definition clientGetOrCreateCollection :: "jsstring \<Rightarrow> vstore \<Rightarrow> cerror + vstore" where
  "clientGetOrCreateCollection name st =
     (case st of
        Unreachable \<Rightarrow> Inl ConnectionError
      | Up m \<Rightarrow> (case m name of None \<Rightarrow> Inr (Up (m(name \<mapsto> []))) | Some c \<Rightarrow> Inr (Up m)))"

definition clientGetCollection :: "jsstring \<Rightarrow> vstore \<Rightarrow> cerror + collection" where
  "clientGetCollection name st =
     (case st of
        Unreachable \<Rightarrow> Inl ConnectionError
      | Up m \<Rightarrow> (case m name of None \<Rightarrow> Inl CollectionNotFound | Some c \<Rightarrow> Inr c))"

definition upsertEntry :: "jsstring \<times> Entry \<Rightarrow> collection \<Rightarrow> collection" where
  "upsertEntry e c =
     (if fst e \<in> fst ` set c then map (\<lambda>x. if fst x = fst e then e else x) c else c @ [e])"

definition collectionUpsert :: "jsstring \<Rightarrow> (jsstring \<times> Entry) list \<Rightarrow> vstore \<Rightarrow> cerror + vstore" where
  "collectionUpsert name es st =
     (case st of
        Unreachable \<Rightarrow> Inl ConnectionError
      | Up m \<Rightarrow>
          (case m name of
             None \<Rightarrow> Inl CollectionNotFound
           | Some c \<Rightarrow> Inr (Up (m(name \<mapsto> foldl (\<lambda>c e. upsertEntry e c) c es)))))"

definition collectionDelete :: "jsstring \<Rightarrow> jsstring list \<Rightarrow> vstore \<Rightarrow> cerror + vstore" where
  "collectionDelete name ids st =
     (case st of
        Unreachable \<Rightarrow> Inl ConnectionError
      | Up m \<Rightarrow>
          (case m name of
             None \<Rightarrow> Inl CollectionNotFound
           | Some c \<Rightarrow> Inr (Up (m(name \<mapsto> filter (\<lambda>x. fst x \<notin> set ids) c)))))"

text \<open>
  The answer of \<open>collection.query\<close>: the first (and only) row of \<open>documents\<close>,
  \<open>metadatas\<close> and \<open>distances\<close>, each possibly missing. Which entries the store finds
  similar is its own business: the similarity search is the parameter \<open>search\<close> of
  \<open>queryRelevantFiles\<close>.
\<close>

record QueryResult =
  documents :: "jsstring list option"
  metadatas :: "Metadata option list option"
  distances :: "real list option"

type_synonym search = "collection \<Rightarrow> jsstring \<Rightarrow> int \<Rightarrow> cerror + QueryResult"

section \<open>VectorDBService (vectordb.service.js)\<close>

definition collectionName :: "jsstring \<Rightarrow> jsstring" where
  "collectionName projectId = js ''project_'' @ projectId"

text \<open>\<open>getOrCreateCollection\<close> logs and rethrows.\<close>

definition getOrCreateCollection :: "jsstring \<Rightarrow> vstore \<Rightarrow> cerror + vstore" where
  "getOrCreateCollection projectId st = clientGetOrCreateCollection (collectionName projectId) st"

record InputFile =
  ipath :: jsstring
  icontent :: jsopt
  ilanguage :: jsopt

text \<open>
  \<open>upsertFiles\<close>. \<open>Date.now()\<close> is read once per file inside \<open>files.map\<close>; \<open>now i\<close> is
  the clock at the \<open>i\<close>-th file.
\<close>

definition upsertFiles :: "(nat \<Rightarrow> int) \<Rightarrow> jsstring \<Rightarrow> InputFile list \<Rightarrow> vstore \<Rightarrow> cerror + vstore" where
  "upsertFiles now projectId fs st =
     (if fs = [] then Inr st
      else
        (case getOrCreateCollection projectId st of
           Inl e \<Rightarrow> Inl e
         | Inr st1 \<Rightarrow>
             (let documents = map (\<lambda>f. orElse (icontent f) []) fs;
                  metadatas = map (\<lambda>(i, f). \<lparr>mpath = ipath f,
                                              mlanguage = orElse (ilanguage f) (js ''text''),
                                              lastModified = now i\<rparr>) (enumerate 0 fs);
                  ids = map (\<lambda>f. fileId projectId (ipath f)) fs
              in collectionUpsert (collectionName projectId)
                   (zip ids (map (\<lambda>(d, m). \<lparr>document = d, metadata = m\<rparr>) (zip documents metadatas)))
                   st1)))"

definition deleteFiles :: "jsstring \<Rightarrow> jsstring list \<Rightarrow> vstore \<Rightarrow> cerror + vstore" where
  "deleteFiles projectId filePaths st =
     (case getOrCreateCollection projectId st of
        Inl e \<Rightarrow> Inl e
      | Inr st1 \<Rightarrow>
          (let ids = map (\<lambda>p. fileId projectId p) filePaths
           in collectionDelete (collectionName projectId) ids st1))"

text \<open>
  \<open>getProjectStructure\<close> catches every error and answers the empty string; it uses
  \<open>getCollection\<close>, which throws when the collection does not exist. When a path leaves
  the tree (\<open>buildFileTree\<close> is \<open>None\<close>) the code still returns a string, the empty one
  if it threw on the way: that string is a matter of the host's built-in objects and is
  the parameter \<open>outside\<close>, applied to the paths.
\<close>

definition getProjectStructure ::
  "(jsstring \<Rightarrow> jsstring \<Rightarrow> int) \<Rightarrow> (jsstring list \<Rightarrow> jsstring) \<Rightarrow> jsstring \<Rightarrow> vstore
     \<Rightarrow> jsstring" where
  "getProjectStructure lc outside projectId st =
     (case clientGetCollection (collectionName projectId) st of
        Inl e \<Rightarrow> []
      | Inr allFiles \<Rightarrow>
          if allFiles = [] then js ''Empty project''
          else
            (let paths = map (\<lambda>x. mpath (metadata (snd x))) allFiles
             in case buildFileTree paths of
                  Some tree \<Rightarrow> treeToString lc tree []
                | None \<Rightarrow> outside paths))"

text \<open>The files that \<open>queryRelevantFiles\<close> reconstructs from a query result.\<close>

definition resultFiles :: "QueryResult \<Rightarrow> ContextFile list" where
  "resultFiles results =
     (case documents results of
        None \<Rightarrow> []
      | Some docs \<Rightarrow>
          concat (map (\<lambda>(idx, doc).
                    (case metadatas results of
                       None \<Rightarrow> []
                     | Some ms \<Rightarrow>
                         if idx < length ms then
                           (case ms ! idx of
                              None \<Rightarrow> []
                            | Some m \<Rightarrow>
                                [\<lparr>cpath = mpath m, clanguage = Str (mlanguage m), ccontent = doc,
                                  score = (case distances results of
                                             None \<Rightarrow> 0
                                           | Some ds \<Rightarrow> if idx < length ds then ds ! idx else 0)\<rparr>])
                         else []))
                  (enumerate 0 docs)))"

text \<open>
  \<open>queryRelevantFiles\<close>: the \<open>try\<close> block, then the \<open>catch\<close> that turns every error into
  the empty context. The result is a sum so that "does not throw" is a statement about
  the function; the store is returned because \<open>getOrCreateCollection\<close> may have created
  the collection. \<open>collection.query\<close> runs on the collection that
  \<open>getOrCreateCollection\<close> returned, which the model reads back from the store.
\<close>

definition queryBody ::
  "(jsstring \<Rightarrow> jsstring \<Rightarrow> int) \<Rightarrow> (jsstring list \<Rightarrow> jsstring) \<Rightarrow> search \<Rightarrow> jsstring
     \<Rightarrow> jsstring \<Rightarrow> int \<Rightarrow> vstore \<Rightarrow> cerror \<times> vstore + RetrievedContext \<times> vstore" where
  "queryBody lc outside search projectId query topK st =
     (case getOrCreateCollection projectId st of
        Inl e \<Rightarrow> Inl (e, st)
      | Inr st1 \<Rightarrow>
          (case clientGetCollection (collectionName projectId) st1 of
             Inl e \<Rightarrow> Inl (e, st1)
           | Inr c \<Rightarrow>
               (case search c query topK of
                  Inl e \<Rightarrow> Inl (e, st1)
                | Inr results \<Rightarrow>
                    Inr (\<lparr>files = resultFiles results,
                          structure = getProjectStructure lc outside projectId st1\<rparr>, st1))))"

definition queryRelevantFiles ::
  "(jsstring \<Rightarrow> jsstring \<Rightarrow> int) \<Rightarrow> (jsstring list \<Rightarrow> jsstring) \<Rightarrow> search \<Rightarrow> jsstring
     \<Rightarrow> jsstring \<Rightarrow> int \<Rightarrow> vstore \<Rightarrow> cerror + RetrievedContext \<times> vstore" where
  "queryRelevantFiles lc outside search projectId query topK st =
     (case queryBody lc outside search projectId query topK st of
        Inl (e, st') \<Rightarrow> Inr (\<lparr>files = [], structure = []\<rparr>, st')
      | Inr r \<Rightarrow> Inr r)"

section \<open>FileSystemService (the relational file store)\<close>









section \<open>The rename route (routes/files.js, POST /api/files/rename)\<close>



section \<open>Regular expressions\<close>

text \<open>
  The three regular expressions of the parser are sequences of items of three kinds: a
  literal string, a greedy repetition \<open>{n,}\<close> of a character class (\<open>+\<close> is \<open>{1,}\<close>), and
  the lazy \<open>[\s\S]*?\<close>, which matches any code units. \<open>rmatch r s\<close> matches the items
  \<open>r\<close> at the start of \<open>s\<close> the way a backtracking matcher does: a greedy repetition
  first tries to take one more character and gives characters back only when the rest of
  the pattern fails; the lazy item first tries the rest of the pattern and takes one more
  character only when that fails. A successful match returns, item by item, the text each
  item consumed, and the input that remains; the capture groups of the source are the
  segments of the items they enclose.
\<close>

datatype 'c item = Lit "'c list" | Rep nat "'c \<Rightarrow> bool" | LazyAny

type_synonym 'c rmatch = "'c list list \<times> 'c list"

fun takeChar :: "'c \<Rightarrow> 'c rmatch \<Rightarrow> 'c rmatch" where
  "takeChar x (seg # segs, rest) = ((x # seg) # segs, rest)"
| "takeChar x ([], rest) = ([[x]], rest)"

definition addSeg :: "'c list \<Rightarrow> 'c rmatch \<Rightarrow> 'c rmatch" where
  "addSeg seg m = (seg # fst m, snd m)"

fun rmatch :: "'c item list \<Rightarrow> 'c list \<Rightarrow> 'c rmatch option" where
  "rmatch [] s = Some ([], s)"
| "rmatch (Lit l # r) s =
     (if prefix l s then map_option (addSeg l) (rmatch r (drop (length l) s)) else None)"
| "rmatch (Rep n P # r) [] = (if n = 0 then map_option (addSeg []) (rmatch r []) else None)"
| "rmatch (Rep n P # r) (x # xs) =
     (case (if P x then map_option (takeChar x) (rmatch (Rep (n - 1) P # r) xs) else None) of
        Some m \<Rightarrow> Some m
      | None \<Rightarrow> if n = 0 then map_option (addSeg []) (rmatch r (x # xs)) else None)"
| "rmatch (LazyAny # r) s =
     (case rmatch r s of
        Some m \<Rightarrow> Some (addSeg [] m)
      | None \<Rightarrow> (case s of [] \<Rightarrow> None | x # xs \<Rightarrow> map_option (takeChar x) (rmatch (LazyAny # r) xs)))"

fun rsearch :: "'c item list \<Rightarrow> 'c list \<Rightarrow> ('c list \<times> 'c rmatch) option" where
  "rsearch r [] = map_option (Pair []) (rmatch r [])"
| "rsearch r (x # xs) =
     (case rmatch r (x # xs) of
        Some m \<Rightarrow> Some ([], m)
      | None \<Rightarrow> map_option (\<lambda>(pre, m). (x # pre, m)) (rsearch r xs))"

text \<open>
  \<open>/<file\s+path="([^"]+)"\s+language="([^"]+)">([\s\S]*?)<\/file>/\<close>: the groups 1, 2
  and 3 are the segments 3, 7 and 9.
\<close>

definition fileRegex :: "jschar item list" where
  "fileRegex =
     [Lit (js ''<file''), Rep 1 isWhiteSpace, Lit (js ''path=\"''),
      Rep 1 (\<lambda>c. c \<noteq> of_char CHR 0x22), Lit (js ''\"''), Rep 1 isWhiteSpace,
      Lit (js ''language=\"''), Rep 1 (\<lambda>c. c \<noteq> of_char CHR 0x22), Lit (js ''\">''),
      LazyAny, Lit (js ''</file>'')]"

text \<open>\<open>/<thinking>([\s\S]*?)<\/thinking>/\<close>: group 1 is segment 1.\<close>

definition thinkingRegex :: "jschar item list" where
  "thinkingRegex = [Lit (js ''<thinking>''), LazyAny, Lit (js ''</thinking>'')]"

text \<open>\<open>/\n{3,}/\<close>\<close>

definition newlinesRegex :: "jschar item list" where
  "newlinesRegex = [Rep 3 (\<lambda>c. c = of_char CHR 0x0A)]"


text \<open>
  A match consumes a prefix of the input, one segment per item; a search skips \<open>pre\<close>
  and matches there. (The loops below terminate because of these facts.)
\<close>

lemma takeChar_nonempty:
  "fst m \<noteq> [] \<Longrightarrow>
     concat (fst (takeChar x m)) = x # concat (fst m) \<and>
     length (fst (takeChar x m)) = length (fst m) \<and> snd (takeChar x m) = snd m"
  by (cases m; cases "fst m") auto

lemma rmatch_sound:
  "rmatch r s = Some m \<Longrightarrow> concat (fst m) @ snd m = s \<and> length (fst m) = length r"
proof (induction r s arbitrary: m rule: rmatch.induct)
  case (1 s)
  then show ?case by auto
next
  case (2 l r s)
  from "2.prems" obtain m' where p: "prefix l s" and m': "rmatch r (drop (length l) s) = Some m'"
    and m: "m = addSeg l m'"
    by (auto split: if_splits)
  from "2.IH" [OF p m'] have "concat (fst m') @ snd m' = drop (length l) s" "length (fst m') = length r"
    by auto
  moreover from p have "l @ drop (length l) s = s"
    by (metis append_eq_conv_conj prefix_def)
  ultimately show ?case using m by (simp add: addSeg_def)
next
  case (3 n P r)
  then show ?case by (auto simp: addSeg_def split: if_splits)
next
  case (4 n P r x xs)
  show ?case
  proof (cases "P x \<and> rmatch (Rep (n - 1) P # r) xs \<noteq> None")
    case True
    then obtain m' where m': "rmatch (Rep (n - 1) P # r) xs = Some m'" by blast
    with True "4.prems" have m: "m = takeChar x m'" by simp
    from "4.IH"(1) [OF _ m'] True
    have ih: "concat (fst m') @ snd m' = xs" "length (fst m') = Suc (length r)" by auto
    then have "fst m' \<noteq> []" by auto
    from takeChar_nonempty [OF this, of x] ih m show ?thesis by simp
  next
    case False
    with "4.prems" obtain m' where n: "n = 0" and m': "rmatch r (x # xs) = Some m'"
      and m: "m = addSeg [] m'"
      by (auto split: if_splits option.splits)
    have "(if P x then map_option (takeChar x) (rmatch (Rep (n - 1) P # r) xs) else None) = None"
      using False by (cases "rmatch (Rep (n - 1) P # r) xs") auto
    from "4.IH"(2) [OF this n m'] m show ?thesis by (simp add: addSeg_def)
  qed
next
  case (5 r s)
  show ?case
  proof (cases "rmatch r s")
    case (Some m')
    with "5.prems" have "m = addSeg [] m'" by simp
    with "5.IH"(1) [OF Some] show ?thesis by (simp add: addSeg_def)
  next
    case None
    with "5.prems" obtain x xs m' where s: "s = x # xs" and m': "rmatch (LazyAny # r) xs = Some m'"
      and m: "m = takeChar x m'"
      by (auto split: list.splits)
    from "5.IH"(2) [OF None s m'] have ih: "concat (fst m') @ snd m' = xs" "length (fst m') = Suc (length r)"
      by auto
    then have "fst m' \<noteq> []" by auto
    from takeChar_nonempty [OF this, of x] ih m s show ?thesis by simp
  qed
qed

lemma rsearch_sound:
  "rsearch r s = Some (pre, m) \<Longrightarrow>
     s = pre @ concat (fst m) @ snd m \<and> length (fst m) = length r \<and>
     rmatch r (drop (length pre) s) = Some m"
proof (induction s arbitrary: pre)
  case Nil
  then show ?case using rmatch_sound [of r "[]" m] by auto
next
  case (Cons x xs)
  show ?case
  proof (cases "rmatch r (x # xs)")
    case None
    with Cons.prems obtain pre' where r: "rsearch r xs = Some (pre', m)" and p: "pre = x # pre'"
      by auto
    from Cons.IH [OF r] have "xs = pre' @ concat (fst m) @ snd m" "length (fst m) = length r"
      "rmatch r (drop (length pre') xs) = Some m"
      by auto
    with p show ?thesis by simp
  next
    case (Some m')
    with Cons.prems have "pre = []" "m = m'" by auto
    with Some rmatch_sound [of r "x # xs" m] show ?thesis by simp
  qed
qed

lemma rmatch_Lit_head:
  "rmatch (Lit l # r) s = Some m \<Longrightarrow> \<exists>segs. fst m = l # segs"
  by (auto simp: addSeg_def split: if_splits)

lemma rsearch_fileRegex_shorter:
  assumes "rsearch fileRegex s = Some (pre, m)"
  shows "length (snd m) < length s"
proof -
  from rsearch_sound [OF assms]
  have s: "s = pre @ concat (fst m) @ snd m" and m: "rmatch fileRegex (drop (length pre) s) = Some m"
    by auto
  from m obtain segs where "fst m = js ''<file'' # segs"
    unfolding fileRegex_def using rmatch_Lit_head by blast
  then have "concat (fst m) \<noteq> []" by (simp add: js_def)
  then have "0 < length (concat (fst m))" by simp
  moreover from s have "length s = length pre + length (concat (fst m)) + length (snd m)"
    by (metis length_append add.assoc)
  ultimately show ?thesis by simp
qed

section \<open>Response parsing (anythingllm.service.js)\<close>

text \<open>
  The object that \<open>parseClaudeResponse\<close> returns is \<open>{message, files, thinking}\<close>. Its
  field \<open>files\<close> is called \<open>generatedFiles\<close> here, the name under which \<open>sendMessage\<close>
  passes it on, because \<open>files\<close> already names the field of the retrieved context.
  \<open>thinking\<close> is \<open>None\<close> for \<open>null\<close>.
\<close>

record GeneratedFile =
  path :: jsstring
  language :: jsstring
  content :: jsstring

record ParsedResponse =
  message :: jsstring
  generatedFiles :: "GeneratedFile list"
  thinking :: "jsstring option"

text \<open>
  \<open>s.replace(pat, rep)\<close> with a string pattern replaces the first occurrence of \<open>pat\<close>.
  (The replacement strings of the source contain no \<open>$\<close>, so they are taken literally.)
\<close>

fun replaceFirst :: "'c list \<Rightarrow> 'c list \<Rightarrow> 'c list \<Rightarrow> 'c list" where
  "replaceFirst pat rep [] = (if pat = [] then rep else [])"
| "replaceFirst pat rep (x # xs) =
     (if prefix pat (x # xs) then rep @ drop (length pat) (x # xs)
      else x # replaceFirst pat rep xs)"

text \<open>
  \<open>s.replace(regex, rep)\<close> with a global regular expression replaces every match, found
  from left to right, each search starting where the previous match ended (one code unit
  further after an empty match).
\<close>

function replaceAll :: "'c item list \<Rightarrow> 'c list \<Rightarrow> 'c list \<Rightarrow> 'c list" where
  "replaceAll r rep s =
     (case rsearch r s of
        None \<Rightarrow> s
      | Some (pre, segs, rest) \<Rightarrow>
          if concat segs = [] then
            (case rest of [] \<Rightarrow> pre @ rep | x # xs \<Rightarrow> pre @ rep @ x # replaceAll r rep xs)
          else pre @ rep @ replaceAll r rep rest)"
  by pat_completeness auto
termination
proof (relation "measure (\<lambda>(r, rep, s). length s)", goal_cases)
  case 1
  show ?case by simp
next
  case (2 r rep s x2 pre y segs rest x xs)
  then have "rsearch r s = Some (pre, (segs, x # xs))" by simp
  from rsearch_sound [OF this] show ?case by simp
next
  case (3 r rep s x2 pre y segs rest)
  then have "rsearch r s = Some (pre, (segs, rest))" by simp
  from rsearch_sound [OF this] have "s = pre @ concat segs @ rest" by simp
  then have "length s = length pre + length (concat segs) + length rest" by simp
  moreover from 3 have "0 < length (concat segs)" by simp
  ultimately show ?case by simp
qed

text \<open>
  The \<open>while\<close> loop of \<open>parseClaudeResponse\<close>. \<open>fileRegex.exec(responseText)\<close> searches
  from \<open>lastIndex\<close>, which after a match is the end of that match: \<open>rest\<close> is the part of
  \<open>responseText\<close> from \<open>lastIndex\<close> on (the pattern has no anchor and no look-behind, so
  a match depends on that part only). \<open>fs\<close> is the array \<open>files\<close>.
\<close>

function parseLoop :: "jsstring \<Rightarrow> GeneratedFile list \<Rightarrow> jsstring \<Rightarrow> GeneratedFile list \<times> jsstring" where
  "parseLoop text fs cleanedMessage =
     (case rsearch fileRegex text of
        None \<Rightarrow> (fs, cleanedMessage)
      | Some (pre, segs, rest) \<Rightarrow>
          parseLoop rest
            (fs @ [\<lparr>path = trim (segs ! 3), language = trim (segs ! 7), content = trim (segs ! 9)\<rparr>])
            (replaceFirst (concat segs) [] cleanedMessage))"
  by pat_completeness auto
termination
proof (relation "measure (\<lambda>(text, fs, cleanedMessage). length text)", goal_cases)
  case 1
  show ?case by simp
next
  case (2 t fs cleanedMessage x2 pre y segs rest)
  then have "rsearch fileRegex t = Some (pre, (segs, rest))" by simp
  from rsearch_fileRegex_shorter [OF this] show ?case by simp
qed

definition extractThinking :: "jsstring \<Rightarrow> jsstring option" where
  "extractThinking text =
     (case rsearch thinkingRegex text of
        None \<Rightarrow> None
      | Some (pre, segs, rest) \<Rightarrow> Some (trim (segs ! 1)))"

definition cleanMessage :: "jsstring \<Rightarrow> jsstring" where
  "cleanMessage text =
     trim (replaceAll newlinesRegex (js ''\<newline>\<newline>'') (replaceAll thinkingRegex [] text))"

definition parseClaudeResponse :: "jsstring \<Rightarrow> ParsedResponse" where
  "parseClaudeResponse responseText =
     (let (fs, cleanedMessage) = parseLoop responseText [] responseText
      in \<lparr>message = cleanMessage cleanedMessage, generatedFiles = fs,
          thinking = extractThinking responseText\<rparr>)"

section \<open>Notions used to state the properties\<close>

text \<open>The entries a store holds for a project, and those stored under the identifier of a path.\<close>

definition indexEntries :: "vstore \<Rightarrow> jsstring \<Rightarrow> collection" where
  "indexEntries st projectId =
     (case st of
        Unreachable \<Rightarrow> []
      | Up m \<Rightarrow> (case m (collectionName projectId) of None \<Rightarrow> [] | Some c \<Rightarrow> c))"

definition entriesFor :: "vstore \<Rightarrow> jsstring \<Rightarrow> jsstring \<Rightarrow> (jsstring \<times> Entry) list" where
  "entriesFor st projectId p = filter (\<lambda>x. fst x = fileId projectId p) (indexEntries st projectId)"

text \<open>
  A concrete collation for the examples: comparison by UTF-16 code units, which is how
  \<open>localeCompare\<close> orders the lower-case ASCII names used there.
\<close>

fun codeUnitCompare :: "jsstring \<Rightarrow> jsstring \<Rightarrow> int" where
  "codeUnitCompare [] [] = 0"
| "codeUnitCompare [] (y # ys) = - 1"
| "codeUnitCompare (x # xs) [] = 1"
| "codeUnitCompare (x # xs) (y # ys) =
     (if x < y then - 1 else if y < x then 1 else codeUnitCompare xs ys)"

text \<open>
  For the examples: a host that answers the empty outline when a path leaves the tree,
  and two similarity searches, one that finds nothing and one that throws.
\<close>

definition noOutline :: "jsstring list \<Rightarrow> jsstring" where
  "noOutline paths = []"

definition emptyAnswer :: search where
  "emptyAnswer c query topK = Inr \<lparr>documents = Some [], metadatas = Some [], distances = Some []\<rparr>"

definition failingSearch :: search where
  "failingSearch c query topK = Inl QueryError"

text \<open>What a successful match says about the segment of each item.\<close>

fun segOK :: "'c item \<Rightarrow> 'c list \<Rightarrow> bool" where
  "segOK (Lit l) seg = (seg = l)"
| "segOK (Rep n P) seg = (n \<le> length seg \<and> list_all P seg)"
| "segOK LazyAny seg = True"

text \<open>
  \<open>unclosed raw\<close>: every file tag of the text is unclosed, that is, no \<open><file\<close> of the
  text is followed, anywhere after it, by a closing \<open></file>\<close>.
\<close>

fun unclosed :: "jsstring \<Rightarrow> bool" where
  "unclosed [] = True"
| "unclosed (x # xs) =
     ((prefix (js ''<file'') (x # xs) \<longrightarrow> \<not> occurs (js ''</file>'') (x # xs)) \<and> unclosed xs)"

text \<open>
  The opening tags that the parser is not meant to accept: the attributes in the order
  language, path; an attribute value in single quotes; one attribute or both left out. \<open>w\<close> and \<open>w2\<close>
  are the white space between the parts.
\<close>

inductive malformedTag :: "jsstring \<Rightarrow> bool" where
  languageFirst:
    "list_all isWhiteSpace w \<Longrightarrow>
     malformedTag (js ''<file'' @ w @ js ''language=\"'' @ l @ js ''\"'' @ w2 @ js ''path=\"'' @ p
                   @ js ''\">'')"
| singleQuotedPath:
    "list_all isWhiteSpace w \<Longrightarrow>
     malformedTag (js ''<file'' @ w @ js ''path='' @ [of_char CHR 0x27] @ p @ [of_char CHR 0x27] @ w2
                   @ js ''language='' @ [q] @ l @ [q] @ js ''>'')"
| singleQuotedLanguage:
    "list_all isWhiteSpace w \<Longrightarrow> of_char CHR 0x22 \<notin> set p \<Longrightarrow> list_all isWhiteSpace w2 \<Longrightarrow>
     malformedTag (js ''<file'' @ w @ js ''path=\"'' @ p @ js ''\"'' @ w2
                   @ js ''language='' @ [of_char CHR 0x27] @ l @ [of_char CHR 0x27] @ js ''>'')"
| languageOmitted:
    "list_all isWhiteSpace w \<Longrightarrow> of_char CHR 0x22 \<notin> set p \<Longrightarrow>
     malformedTag (js ''<file'' @ w @ js ''path=\"'' @ p @ js ''\">'')"
| pathOmitted:
    "list_all isWhiteSpace w \<Longrightarrow>
     malformedTag (js ''<file'' @ w @ js ''language=\"'' @ l @ js ''\">'')"
| attributesOmitted:
    "malformedTag (js ''<file>'')"

text \<open>
  A well-formed file block, by its parts, and a response text given as the blocks it
  contains, each with the text that precedes it, and the text after the last block.
\<close>

record FileBlock =
  sep1 :: jsstring
  attrPath :: jsstring
  sep2 :: jsstring
  attrLanguage :: jsstring
  body :: jsstring

definition blockText :: "FileBlock \<Rightarrow> jsstring" where
  "blockText b =
     js ''<file'' @ sep1 b @ js ''path=\"'' @ attrPath b @ js ''\"'' @ sep2 b @ js ''language=\"''
       @ attrLanguage b @ js ''\">'' @ body b @ js ''</file>''"

definition wellFormed :: "FileBlock \<Rightarrow> bool" where
  "wellFormed b \<longleftrightarrow>
     sep1 b \<noteq> [] \<and> list_all isWhiteSpace (sep1 b) \<and>
     attrPath b \<noteq> [] \<and> of_char CHR 0x22 \<notin> set (attrPath b) \<and>
     sep2 b \<noteq> [] \<and> list_all isWhiteSpace (sep2 b) \<and>
     attrLanguage b \<noteq> [] \<and> of_char CHR 0x22 \<notin> set (attrLanguage b) \<and>
     \<not> occurs (js ''</file>'') (body b)"

fun interleave :: "(jsstring \<times> FileBlock) list \<Rightarrow> jsstring \<Rightarrow> jsstring" where
  "interleave [] final = final"
| "interleave ((t, b) # tbs) final = t @ blockText b @ interleave tbs final"

definition outsideText :: "(jsstring \<times> FileBlock) list \<Rightarrow> jsstring \<Rightarrow> jsstring" where
  "outsideText tbs final = concat (map fst tbs) @ final"

definition extracted :: "FileBlock \<Rightarrow> GeneratedFile" where
  "extracted b =
     \<lparr>path = trim (attrPath b), language = trim (attrLanguage b), content = trim (body b)\<rparr>"

text \<open>
  An opening file tag, by its parts, and \<open>closedTagIn raw\<close>: somewhere in the text an
  opening tag (white space before each attribute, values without a double quote and not
  empty) is followed, at any distance, by a closing \<open></file>\<close>.
\<close>

definition openingTag :: "jsstring \<Rightarrow> jsstring \<Rightarrow> jsstring \<Rightarrow> jsstring \<Rightarrow> jsstring" where
  "openingTag w1 p w2 l =
     js ''<file'' @ w1 @ js ''path=\"'' @ p @ js ''\"'' @ w2 @ js ''language=\"'' @ l @ js ''\">''"

definition closedTagIn :: "jsstring \<Rightarrow> bool" where
  "closedTagIn raw \<longleftrightarrow>
     (\<exists>pre w1 p w2 l c post.
        raw = pre @ openingTag w1 p w2 l @ c @ js ''</file>'' @ post \<and>
        w1 \<noteq> [] \<and> list_all isWhiteSpace w1 \<and> p \<noteq> [] \<and> of_char CHR 0x22 \<notin> set p \<and>
        w2 \<noteq> [] \<and> list_all isWhiteSpace w2 \<and> l \<noteq> [] \<and> of_char CHR 0x22 \<notin> set l)"

section \<open>Properties of the identifiers\<close>

lemma replaceSlashes_no_underscore:
  assumes "of_char CHR ''_'' \<notin> set p" "of_char CHR ''_'' \<notin> set q"
    and "replaceSlashes p = replaceSlashes q"
  shows "p = q"
  using assms
proof (induction p arbitrary: q)
  case Nil
  then show ?case by (simp add: replaceSlashes_def)
next
  case (Cons a p)
  then obtain b q' where q: "q = b # q'"
    by (cases q) (auto simp: replaceSlashes_def)
  from Cons.prems q have "a = b"
    by (auto simp: replaceSlashes_def split: if_splits)
  moreover from Cons.prems q have "p = q'"
    by (intro Cons.IH) (auto simp: replaceSlashes_def)
  ultimately show ?case using q by simp
qed

text \<open>
  C2, as stated: distinct paths of a project get distinct identifiers. It fails: the
  paths \<open>a/b\<close> and \<open>a_b\<close> are distinct and receive the same identifier.
\<close>

theorem fileId_collision:
  "js ''a/b'' \<noteq> js ''a_b'' \<and> fileId (js ''p1'') (js ''a/b'') = fileId (js ''p1'') (js ''a_b'')"
  by (simp add: fileId_def replaceSlashes_def js_def)

text \<open>
  C2, amended: two paths of a project receive the same identifier exactly when they are
  equal after every \<open>/\<close> is replaced by \<open>_\<close>; so the identifier is injective on the paths
  that contain no \<open>_\<close>.
\<close>

theorem fileId_eq_iff:
  "(fileId projectId p = fileId projectId q \<longleftrightarrow> replaceSlashes p = replaceSlashes q) \<and>
   (of_char CHR ''_'' \<notin> set p \<and> of_char CHR ''_'' \<notin> set q \<and> p \<noteq> q
      \<longrightarrow> fileId projectId p \<noteq> fileId projectId q)"
  using replaceSlashes_no_underscore [of p q] by (auto simp: fileId_def)

theorem fileId_eq_iff_witness:
  "of_char CHR ''_'' \<notin> set (js ''a/b'') \<and> of_char CHR ''_'' \<notin> set (js ''a/c'') \<and>
   js ''a/b'' \<noteq> js ''a/c'' \<and> fileId (js ''p1'') (js ''a/b'') \<noteq> fileId (js ''p1'') (js ''a/c'')"
  using fileId_eq_iff [of "js ''p1''" "js ''a/b''" "js ''a/c''"]
  by (simp add: js_def replaceSlashes_def)


section \<open>Properties of the prompt\<close>

lemma js_eq_Nil: "js s = [] \<longleftrightarrow> s = []"
  by (simp add: js_def)

lemma foldl_appendFile:
  "foldl appendFile p fs =
     p @ concat (map (\<lambda>f. js ''### '' @ cpath f @ js ''\<newline>'' @ js ''```''
                       @ orElse (clanguage f) (js ''text'') @ js ''\<newline>''
                       @ ccontent f @ js ''\<newline>'' @ js ''```\<newline>\<newline>'') fs)"
  by (induction fs arbitrary: p) (simp_all add: appendFile_def Let_def)

lemma js_append: "js a @ js b = js (a @ b)"
  by (simp add: js_def)

lemma instructions_text:
  "js ''# Instructions\<newline>\<newline>'' @
   js ''You are helping develop a software project. When generating code:\<newline>'' @
   js ''1. Generate complete, production-ready code\<newline>'' @
   js ''2. Follow the existing project structure and conventions\<newline>'' @
   js ''3. Include all necessary imports and dependencies\<newline>'' @
   js ''4. Wrap each file in XML tags with path and language:\<newline>\<newline>'' @
   js ''<file path=\"src/components/Button.jsx\" language=\"javascript\">\<newline>'' @
   js ''// file content here\<newline>'' @
   js ''</file>\<newline>\<newline>'' @
   js ''5. You can generate multiple files in one response\<newline>'' @
   js ''6. Make sure code is ready to run without modifications\<newline>\<newline>'' @ r =
   js ''# Instructions\<newline>\<newline>You are helping develop a software project. When generating code:\<newline>1. Generate complete, production-ready code\<newline>2. Follow the existing project structure and conventions\<newline>3. Include all necessary imports and dependencies\<newline>4. Wrap each file in XML tags with path and language:\<newline>\<newline><file path=\"src/components/Button.jsx\" language=\"javascript\">\<newline>// file content here\<newline></file>\<newline>\<newline>5. You can generate multiple files in one response\<newline>6. Make sure code is ready to run without modifications\<newline>\<newline>'' @ r"
  by (simp only: js_append append_assoc [symmetric]) simp

lemma instructions_text0:
  "js ''# Instructions\<newline>\<newline>'' @
   js ''You are helping develop a software project. When generating code:\<newline>'' @
   js ''1. Generate complete, production-ready code\<newline>'' @
   js ''2. Follow the existing project structure and conventions\<newline>'' @
   js ''3. Include all necessary imports and dependencies\<newline>'' @
   js ''4. Wrap each file in XML tags with path and language:\<newline>\<newline>'' @
   js ''<file path=\"src/components/Button.jsx\" language=\"javascript\">\<newline>'' @
   js ''// file content here\<newline>'' @
   js ''</file>\<newline>\<newline>'' @
   js ''5. You can generate multiple files in one response\<newline>'' @
   js ''6. Make sure code is ready to run without modifications\<newline>\<newline>'' =
   js ''# Instructions\<newline>\<newline>You are helping develop a software project. When generating code:\<newline>1. Generate complete, production-ready code\<newline>2. Follow the existing project structure and conventions\<newline>3. Include all necessary imports and dependencies\<newline>4. Wrap each file in XML tags with path and language:\<newline>\<newline><file path=\"src/components/Button.jsx\" language=\"javascript\">\<newline>// file content here\<newline></file>\<newline>\<newline>5. You can generate multiple files in one response\<newline>6. Make sure code is ready to run without modifications\<newline>\<newline>''"
  by (simp only: js_append append_assoc [symmetric]) simp

lemma buildEnrichedPrompt_closed:
  "buildEnrichedPrompt userMessage context mode =
     js ''# Project Context\<newline>\<newline>''
     @ (if files context = [] then []
        else js ''## Relevant Files:\<newline>\<newline>''
             @ concat (map (\<lambda>f. js ''### '' @ cpath f @ js ''\<newline>'' @ js ''```''
                                @ orElse (clanguage f) (js ''text'') @ js ''\<newline>''
                                @ ccontent f @ js ''\<newline>'' @ js ''```\<newline>\<newline>'')
                         (files context)))
     @ (if structure context = [] then []
        else js ''## Project Structure:\<newline>```\<newline>'' @ structure context
             @ js ''\<newline>```\<newline>\<newline>'')
     @ js ''# Instructions\<newline>\<newline>You are helping develop a software project. When generating code:\<newline>1. Generate complete, production-ready code\<newline>2. Follow the existing project structure and conventions\<newline>3. Include all necessary imports and dependencies\<newline>4. Wrap each file in XML tags with path and language:\<newline>\<newline><file path=\"src/components/Button.jsx\" language=\"javascript\">\<newline>// file content here\<newline></file>\<newline>\<newline>5. You can generate multiple files in one response\<newline>6. Make sure code is ready to run without modifications\<newline>\<newline>''
     @ (if mode = Str (js ''refactor'')
        then js ''Focus on refactoring existing code while maintaining functionality.\<newline>\<newline>''
        else if mode = Str (js ''test'')
        then js ''Generate comprehensive tests for the code.\<newline>\<newline>''
        else [])
     @ js ''# User Request\<newline>\<newline>'' @ userMessage"
  by (simp add: buildEnrichedPrompt_def Let_def foldl_appendFile instructions_text instructions_text0)

text \<open>
  C8: the prompt is a function of the user message, the context and the mode, and it is
  the concatenation, in this order, of: the header; when there are context files, the
  files heading and one sub-section per file, with its path and a code fence tagged with
  its language (\<open>text\<close> when the file has none) around its content; when the outline is
  not empty, the structure outline in its own fence; the fixed instructions, which show
  the file tag the answer must use; the guidance for the mode, present exactly for the
  modes \<open>refactor\<close> and \<open>test\<close>; and the user request heading followed by the verbatim
  user message. Two prompts are written out in full: one for two context files, an
  outline and the mode \<open>test\<close>, one for an empty context and the mode \<open>chat\<close>.
\<close>

theorem buildEnrichedPrompt_sections:
  "buildEnrichedPrompt userMessage context mode =
     js ''# Project Context\<newline>\<newline>''
     @ (if files context = [] then []
        else js ''## Relevant Files:\<newline>\<newline>''
             @ concat (map (\<lambda>f. js ''### '' @ cpath f @ js ''\<newline>'' @ js ''```''
                                @ orElse (clanguage f) (js ''text'') @ js ''\<newline>''
                                @ ccontent f @ js ''\<newline>'' @ js ''```\<newline>\<newline>'')
                         (files context)))
     @ (if structure context = [] then []
        else js ''## Project Structure:\<newline>```\<newline>'' @ structure context
             @ js ''\<newline>```\<newline>\<newline>'')
     @ js ''# Instructions\<newline>\<newline>You are helping develop a software project. When generating code:\<newline>1. Generate complete, production-ready code\<newline>2. Follow the existing project structure and conventions\<newline>3. Include all necessary imports and dependencies\<newline>4. Wrap each file in XML tags with path and language:\<newline>\<newline><file path=\"src/components/Button.jsx\" language=\"javascript\">\<newline>// file content here\<newline></file>\<newline>\<newline>5. You can generate multiple files in one response\<newline>6. Make sure code is ready to run without modifications\<newline>\<newline>''
     @ (if mode = Str (js ''refactor'')
        then js ''Focus on refactoring existing code while maintaining functionality.\<newline>\<newline>''
        else if mode = Str (js ''test'')
        then js ''Generate comprehensive tests for the code.\<newline>\<newline>''
        else [])
     @ js ''# User Request\<newline>\<newline>'' @ userMessage
   \<and> buildEnrichedPrompt (js ''add tests'')
       \<lparr>files = [\<lparr>cpath = js ''src/a.js'', clanguage = Str (js ''javascript''),
                   ccontent = js ''let a = 1;'', score = 0\<rparr>,
                 \<lparr>cpath = js ''notes'', clanguage = Undefined, ccontent = js ''todo'', score = 0\<rparr>],
        structure = js ''src''\<rparr>
       (Str (js ''test'')) =
     js ''# Project Context\<newline>\<newline>## Relevant Files:\<newline>\<newline>### src/a.js\<newline>```javascript\<newline>let a = 1;\<newline>```\<newline>\<newline>### notes\<newline>```text\<newline>todo\<newline>```\<newline>\<newline>## Project Structure:\<newline>```\<newline>src\<newline>```\<newline>\<newline># Instructions\<newline>\<newline>You are helping develop a software project. When generating code:\<newline>1. Generate complete, production-ready code\<newline>2. Follow the existing project structure and conventions\<newline>3. Include all necessary imports and dependencies\<newline>4. Wrap each file in XML tags with path and language:\<newline>\<newline><file path=\"src/components/Button.jsx\" language=\"javascript\">\<newline>// file content here\<newline></file>\<newline>\<newline>5. You can generate multiple files in one response\<newline>6. Make sure code is ready to run without modifications\<newline>\<newline>Generate comprehensive tests for the code.\<newline>\<newline># User Request\<newline>\<newline>add tests''
   \<and> buildEnrichedPrompt (js ''hello'') \<lparr>files = [], structure = []\<rparr> (Str (js ''chat'')) =
     js ''# Project Context\<newline>\<newline># Instructions\<newline>\<newline>You are helping develop a software project. When generating code:\<newline>1. Generate complete, production-ready code\<newline>2. Follow the existing project structure and conventions\<newline>3. Include all necessary imports and dependencies\<newline>4. Wrap each file in XML tags with path and language:\<newline>\<newline><file path=\"src/components/Button.jsx\" language=\"javascript\">\<newline>// file content here\<newline></file>\<newline>\<newline>5. You can generate multiple files in one response\<newline>6. Make sure code is ready to run without modifications\<newline>\<newline># User Request\<newline>\<newline>hello''"
proof (intro conjI)
  show "buildEnrichedPrompt (js ''hello'') \<lparr>files = [], structure = []\<rparr> (Str (js ''chat'')) =
     js ''# Project Context\<newline>\<newline># Instructions\<newline>\<newline>You are helping develop a software project. When generating code:\<newline>1. Generate complete, production-ready code\<newline>2. Follow the existing project structure and conventions\<newline>3. Include all necessary imports and dependencies\<newline>4. Wrap each file in XML tags with path and language:\<newline>\<newline><file path=\"src/components/Button.jsx\" language=\"javascript\">\<newline>// file content here\<newline></file>\<newline>\<newline>5. You can generate multiple files in one response\<newline>6. Make sure code is ready to run without modifications\<newline>\<newline># User Request\<newline>\<newline>hello''"
    by (simp add: buildEnrichedPrompt_closed js_def)
  show "buildEnrichedPrompt (js ''add tests'')
       \<lparr>files = [\<lparr>cpath = js ''src/a.js'', clanguage = Str (js ''javascript''),
                   ccontent = js ''let a = 1;'', score = 0\<rparr>,
                 \<lparr>cpath = js ''notes'', clanguage = Undefined, ccontent = js ''todo'', score = 0\<rparr>],
        structure = js ''src''\<rparr>
       (Str (js ''test'')) =
     js ''# Project Context\<newline>\<newline>## Relevant Files:\<newline>\<newline>### src/a.js\<newline>```javascript\<newline>let a = 1;\<newline>```\<newline>\<newline>### notes\<newline>```text\<newline>todo\<newline>```\<newline>\<newline>## Project Structure:\<newline>```\<newline>src\<newline>```\<newline>\<newline># Instructions\<newline>\<newline>You are helping develop a software project. When generating code:\<newline>1. Generate complete, production-ready code\<newline>2. Follow the existing project structure and conventions\<newline>3. Include all necessary imports and dependencies\<newline>4. Wrap each file in XML tags with path and language:\<newline>\<newline><file path=\"src/components/Button.jsx\" language=\"javascript\">\<newline>// file content here\<newline></file>\<newline>\<newline>5. You can generate multiple files in one response\<newline>6. Make sure code is ready to run without modifications\<newline>\<newline>Generate comprehensive tests for the code.\<newline>\<newline># User Request\<newline>\<newline>add tests''"
    by (simp add: buildEnrichedPrompt_closed js_def)
qed (rule buildEnrichedPrompt_closed)

section \<open>Properties of the outline\<close>

lemma codeUnitCompare_total: "codeUnitCompare a b \<le> 0 \<or> codeUnitCompare b a \<le> 0"
  by (induction a b rule: codeUnitCompare.induct) auto

lemma codeUnitCompare_trans:
  "codeUnitCompare a b \<le> 0 \<Longrightarrow> codeUnitCompare b c \<le> 0 \<Longrightarrow> codeUnitCompare a c \<le> 0"
proof (induction a b arbitrary: c rule: codeUnitCompare.induct)
  case 1
  then show ?case by simp
next
  case (2 y ys)
  then show ?case by (cases c) auto
next
  case (3 x xs)
  then show ?case by simp
next
  case (4 x xs y ys)
  then show ?case by (cases c) (auto split: if_splits)
qed

lemma mset_insertBy: "mset (insertBy cmp x ys) = add_mset x (mset ys)"
  by (induction ys) auto

lemma mset_sortBy: "mset (sortBy cmp xs) = mset xs"
  by (induction xs) (simp_all add: sortBy_def mset_insertBy)

lemma sorted_insertBy:
  assumes total: "\<And>a b. cmp a b \<le> 0 \<or> cmp b a \<le> 0"
    and trans: "\<And>a b c. cmp a b \<le> 0 \<Longrightarrow> cmp b c \<le> 0 \<Longrightarrow> cmp a c \<le> 0"
    and "sorted_wrt (\<lambda>a b. cmp a b \<le> 0) ys"
  shows "sorted_wrt (\<lambda>a b. cmp a b \<le> 0) (insertBy cmp x ys)"
  using assms(3)
proof (induction ys)
  case Nil
  then show ?case by simp
next
  case (Cons y ys)
  show ?case
  proof (cases "cmp x y \<le> 0")
    case True
    with Cons.prems trans show ?thesis by auto
  next
    case False
    with total have "cmp y x \<le> 0" by blast
    with False Cons show ?thesis by (auto simp: set_insertBy)
  qed
qed

lemma sorted_sortBy:
  assumes "\<And>a b. cmp a b \<le> 0 \<or> cmp b a \<le> 0"
    and "\<And>a b c. cmp a b \<le> 0 \<Longrightarrow> cmp b c \<le> 0 \<Longrightarrow> cmp a c \<le> 0"
  shows "sorted_wrt (\<lambda>a b. cmp a b \<le> 0) (sortBy cmp xs)"
proof (induction xs)
  case Nil
  show ?case by (simp add: sortBy_def)
next
  case (Cons x xs)
  have "sortBy cmp (x # xs) = insertBy cmp x (sortBy cmp xs)" by (simp add: sortBy_def)
  with Cons sorted_insertBy [of cmp "sortBy cmp xs" x] assms show ?case by metis
qed

lemma entryCmp_total:
  assumes "\<forall>a b. lc a b \<le> 0 \<or> lc b a \<le> 0"
  shows "entryCmp lc a b \<le> 0 \<or> entryCmp lc b a \<le> 0"
  using assms by (auto simp: entryCmp_def)

lemma entryCmp_trans:
  assumes "\<forall>a b c. lc a b \<le> 0 \<and> lc b c \<le> 0 \<longrightarrow> lc a c \<le> 0"
    and "entryCmp lc a b \<le> 0" "entryCmp lc b c \<le> 0"
  shows "entryCmp lc a c \<le> 0"
  using assms(2,3) assms(1)[rule_format, of "fst a" "fst b" "fst c"]
  by (auto simp: entryCmp_def split: if_splits)

lemma entryCmp_order:
  "entryCmp lc a b \<le> 0 \<Longrightarrow>
     (snd b \<noteq> None \<longrightarrow> snd a \<noteq> None) \<and>
     ((snd a = None) = (snd b = None) \<longrightarrow> lc (fst a) (fst b) \<le> 0)"
  by (auto simp: entryCmp_def split: if_splits)

lemma example_tree:
  "buildFileTree [js ''a/b.js'', js ''a/c.js'', js ''d.js''] =
     Some (Tree [(js ''a'', Some (Tree [(js ''b.js'', None), (js ''c.js'', None)])),
                 (js ''d.js'', None)])"
  by code_simp

text \<open>
  C7: at every level of the tree the outline lists the entries of that level in an order
  in which no file precedes a directory and in which two entries of the same kind are
  ordered by \<open>localeCompare\<close> (for any collation \<open>lc\<close> that is a total preorder), each
  directory being followed by the outline of its own level; and for the paths
  \<open>a/b.js\<close>, \<open>a/c.js\<close>, \<open>d.js\<close> directory \<open>a\<close> comes before file \<open>d.js\<close> and, within
  \<open>a\<close>, \<open>b.js\<close> before \<open>c.js\<close>.
\<close>

theorem treeToString_order:
  assumes "\<forall>a b. lc a b \<le> 0 \<or> lc b a \<le> 0"
    and "\<forall>a b c. lc a b \<le> 0 \<and> lc b c \<le> 0 \<longrightarrow> lc a c \<le> 0"
  shows "(\<exists>es. mset es = mset ps \<and>
            sorted_wrt (\<lambda>a b. (snd b \<noteq> None \<longrightarrow> snd a \<noteq> None) \<and>
                              ((snd a = None) = (snd b = None) \<longrightarrow> lc (fst a) (fst b) \<le> 0)) es \<and>
            treeToString lc (Tree ps) indent =
              concat (map (\<lambda>(key, v). indent @ icon v @ js '' '' @ key @ js ''\<newline>''
                             @ (case v of None \<Rightarrow> []
                                | Some t \<Rightarrow> treeToString lc t (indent @ js ''  ''))) es)) \<and>
         (lc (js ''b.js'') (js ''c.js'') < 0 \<longrightarrow>
            map_option (\<lambda>tree. treeToString lc tree [])
                (buildFileTree [js ''a/b.js'', js ''a/c.js'', js ''d.js'']) = Some (
              icon (Some (Tree [])) @ js '' a\<newline>'' @
              js ''  '' @ icon None @ js '' b.js\<newline>'' @
              js ''  '' @ icon None @ js '' c.js\<newline>'' @
              icon None @ js '' d.js\<newline>''))"
proof
  let ?es = "sortBy (entryCmp lc) ps"
  have "sorted_wrt (\<lambda>a b. entryCmp lc a b \<le> 0) ?es"
    using entryCmp_total [OF assms(1)] entryCmp_trans [OF assms(2)]
    by (intro sorted_sortBy) blast+
  then have "sorted_wrt (\<lambda>a b. (snd b \<noteq> None \<longrightarrow> snd a \<noteq> None) \<and>
                              ((snd a = None) = (snd b = None) \<longrightarrow> lc (fst a) (fst b) \<le> 0)) ?es"
    by (rule sorted_wrt_mono_rel [rotated]) (rule entryCmp_order)
  then show "\<exists>es. mset es = mset ps \<and>
            sorted_wrt (\<lambda>a b. (snd b \<noteq> None \<longrightarrow> snd a \<noteq> None) \<and>
                              ((snd a = None) = (snd b = None) \<longrightarrow> lc (fst a) (fst b) \<le> 0)) es \<and>
            treeToString lc (Tree ps) indent =
              concat (map (\<lambda>(key, v). indent @ icon v @ js '' '' @ key @ js ''\<newline>''
                             @ (case v of None \<Rightarrow> []
                                | Some t \<Rightarrow> treeToString lc t (indent @ js ''  ''))) es)"
    by (intro exI [of _ ?es]) (simp add: mset_sortBy)
next
  show "lc (js ''b.js'') (js ''c.js'') < 0 \<longrightarrow>
            map_option (\<lambda>tree. treeToString lc tree [])
                (buildFileTree [js ''a/b.js'', js ''a/c.js'', js ''d.js'']) = Some (
              icon (Some (Tree [])) @ js '' a\<newline>'' @
              js ''  '' @ icon None @ js '' b.js\<newline>'' @
              js ''  '' @ icon None @ js '' c.js\<newline>'' @
              icon None @ js '' d.js\<newline>'')"
    by (simp add: example_tree sortBy_def entryCmp_def icon_def) (simp add: js_def)
qed


theorem treeToString_order_witness:
  "codeUnitCompare (js ''b.js'') (js ''c.js'') < 0 \<and>
   map_option (\<lambda>tree. treeToString codeUnitCompare tree [])
       (buildFileTree [js ''a/b.js'', js ''a/c.js'', js ''d.js'']) = Some (
     icon (Some (Tree [])) @ js '' a\<newline>'' @
     js ''  '' @ icon None @ js '' b.js\<newline>'' @
     js ''  '' @ icon None @ js '' c.js\<newline>'' @
     icon None @ js '' d.js\<newline>'') \<and>
   (\<exists>es. mset es = mset [(js ''z'', None), (js ''y'', Some (Tree [])), (js ''x'', None)] \<and>
      sorted_wrt (\<lambda>a b. (snd b \<noteq> None \<longrightarrow> snd a \<noteq> None) \<and>
                        ((snd a = None) = (snd b = None)
                           \<longrightarrow> codeUnitCompare (fst a) (fst b) \<le> 0)) es \<and>
      treeToString codeUnitCompare
          (Tree [(js ''z'', None), (js ''y'', Some (Tree [])), (js ''x'', None)]) [] =
        concat (map (\<lambda>(key, v). [] @ icon v @ js '' '' @ key @ js ''\<newline>''
                       @ (case v of None \<Rightarrow> []
                          | Some t \<Rightarrow> treeToString codeUnitCompare t ([] @ js ''  ''))) es))"
proof -
  have t: "\<forall>a b. codeUnitCompare a b \<le> 0 \<or> codeUnitCompare b a \<le> 0"
    using codeUnitCompare_total by blast
  have tr: "\<forall>a b c. codeUnitCompare a b \<le> 0 \<and> codeUnitCompare b c \<le> 0 \<longrightarrow> codeUnitCompare a c \<le> 0"
    using codeUnitCompare_trans by blast
  have lt: "codeUnitCompare (js ''b.js'') (js ''c.js'') < 0"
    by (simp add: js_def)
  from treeToString_order [OF t tr,
      of "[(js ''z'', None), (js ''y'', Some (Tree [])), (js ''x'', None)]" "[]"] lt
  show ?thesis by blast
qed

section \<open>Properties of the vector index\<close>

lemma upsertEntry_ids:
  "map fst (upsertEntry e c) = (if fst e \<in> fst ` set c then map fst c else map fst c @ [fst e])"
  by (auto simp: upsertEntry_def)

lemma distinct_upsertEntry: "distinct (map fst c) \<Longrightarrow> distinct (map fst (upsertEntry e c))"
  by (auto simp: upsertEntry_ids)

lemma distinct_foldl_upsertEntry:
  "distinct (map fst c) \<Longrightarrow> distinct (map fst (foldl (\<lambda>c e. upsertEntry e c) c es))"
  by (induction es arbitrary: c) (simp_all add: distinct_upsertEntry)

lemma filter_upsertEntry:
  "distinct (map fst c) \<Longrightarrow> filter (\<lambda>x. fst x = fst e) (upsertEntry e c) = [e]"
proof (induction c)
  case Nil
  then show ?case by (simp add: upsertEntry_def)
next
  case (Cons a c)
  show ?case
  proof (cases "fst a = fst e")
    case True
    with Cons.prems have "fst e \<notin> fst ` set c" by auto
    then have "filter (\<lambda>x. fst x = fst e) (map (\<lambda>x. if fst x = fst e then e else x) c) = []"
      by (induction c) auto
    with True show ?thesis by (simp add: upsertEntry_def)
  next
    case False
    with Cons show ?thesis by (auto simp: upsertEntry_def split: if_splits)
  qed
qed

lemma upsertFiles_single:
  "upsertFiles now projectId [f] (Up m) =
     Inr (Up (m(collectionName projectId \<mapsto>
        upsertEntry (fileId projectId (ipath f),
                     \<lparr>document = orElse (icontent f) [],
                      metadata = \<lparr>mpath = ipath f, mlanguage = orElse (ilanguage f) (js ''text''),
                                  lastModified = now 0\<rparr>\<rparr>)
          (indexEntries (Up m) projectId))))"
  by (auto simp: upsertFiles_def getOrCreateCollection_def clientGetOrCreateCollection_def
        collectionUpsert_def indexEntries_def Let_def split: option.splits)

lemma deleteFiles_Up:
  "deleteFiles projectId ps (Up m) =
     Inr (Up (m(collectionName projectId \<mapsto>
        filter (\<lambda>x. fst x \<notin> set (map (fileId projectId) ps)) (indexEntries (Up m) projectId))))"
  by (auto simp: deleteFiles_def getOrCreateCollection_def clientGetOrCreateCollection_def
        collectionDelete_def indexEntries_def Let_def split: option.splits)

lemma indexEntries_upd: "indexEntries (Up (m(collectionName projectId \<mapsto> c))) projectId = c"
  by (simp add: indexEntries_def)

text \<open>
  C6: identifiers are unique in a project's collection and stay so. Upserting a path
  twice, with any contents and languages, leaves exactly one entry under the path's
  identifier, holding the document text and the metadata of the second upsert; deleting
  the path leaves none.
\<close>

theorem index_one_entry_per_path:
  "distinct (map fst (indexEntries (Up m) projectId)) \<longrightarrow>
     (\<exists>st1 st2 st3.
        upsertFiles now1 projectId [\<lparr>ipath = p, icontent = c1, ilanguage = l1\<rparr>] (Up m) = Inr st1 \<and>
        upsertFiles now2 projectId [\<lparr>ipath = p, icontent = c2, ilanguage = l2\<rparr>] st1 = Inr st2 \<and>
        deleteFiles projectId [p] st2 = Inr st3 \<and>
        distinct (map fst (indexEntries st1 projectId)) \<and>
        distinct (map fst (indexEntries st2 projectId)) \<and>
        distinct (map fst (indexEntries st3 projectId)) \<and>
        entriesFor st2 projectId p =
          [(fileId projectId p,
            \<lparr>document = orElse c2 [],
             metadata = \<lparr>mpath = p, mlanguage = orElse l2 (js ''text''), lastModified = now2 0\<rparr>\<rparr>)] \<and>
        entriesFor st3 projectId p = [])"
proof
  assume d: "distinct (map fst (indexEntries (Up m) projectId))"
  let ?e1 = "(fileId projectId p,
            \<lparr>document = orElse c1 [],
             metadata = \<lparr>mpath = p, mlanguage = orElse l1 (js ''text''), lastModified = now1 0\<rparr>\<rparr>)"
  let ?e2 = "(fileId projectId p,
            \<lparr>document = orElse c2 [],
             metadata = \<lparr>mpath = p, mlanguage = orElse l2 (js ''text''), lastModified = now2 0\<rparr>\<rparr>)"
  let ?c1 = "upsertEntry ?e1 (indexEntries (Up m) projectId)"
  let ?c2 = "upsertEntry ?e2 ?c1"
  let ?c3 = "filter (\<lambda>x. fst x \<notin> set (map (fileId projectId) [p])) ?c2"
  let ?m1 = "m(collectionName projectId \<mapsto> ?c1)"
  let ?m2 = "?m1(collectionName projectId \<mapsto> ?c2)"
  let ?m3 = "?m2(collectionName projectId \<mapsto> ?c3)"
  have s1: "upsertFiles now1 projectId [\<lparr>ipath = p, icontent = c1, ilanguage = l1\<rparr>] (Up m) = Inr (Up ?m1)"
    by (simp add: upsertFiles_single)
  have s2: "upsertFiles now2 projectId [\<lparr>ipath = p, icontent = c2, ilanguage = l2\<rparr>] (Up ?m1) = Inr (Up ?m2)"
    by (simp add: upsertFiles_single indexEntries_upd)
  have s3: "deleteFiles projectId [p] (Up ?m2) = Inr (Up ?m3)"
    by (simp only: deleteFiles_Up indexEntries_upd)
  have d1: "distinct (map fst ?c1)" using d by (rule distinct_upsertEntry)
  have d2: "distinct (map fst ?c2)" using d1 by (rule distinct_upsertEntry)
  have d3: "distinct (map fst ?c3)" using d2 by (simp add: distinct_map_filter)
  have e2: "filter (\<lambda>x. fst x = fileId projectId p) ?c2 = [?e2]"
    using filter_upsertEntry [OF d1, of ?e2] by simp
  have e3: "filter (\<lambda>x. fst x = fileId projectId p) ?c3 = []"
    by (simp add: filter_empty_conv)
  show "\<exists>st1 st2 st3.
        upsertFiles now1 projectId [\<lparr>ipath = p, icontent = c1, ilanguage = l1\<rparr>] (Up m) = Inr st1 \<and>
        upsertFiles now2 projectId [\<lparr>ipath = p, icontent = c2, ilanguage = l2\<rparr>] st1 = Inr st2 \<and>
        deleteFiles projectId [p] st2 = Inr st3 \<and>
        distinct (map fst (indexEntries st1 projectId)) \<and>
        distinct (map fst (indexEntries st2 projectId)) \<and>
        distinct (map fst (indexEntries st3 projectId)) \<and>
        entriesFor st2 projectId p = [?e2] \<and>
        entriesFor st3 projectId p = []"
    apply (rule exI [where x = "Up ?m1"])
    apply (rule exI [where x = "Up ?m2"])
    apply (rule exI [where x = "Up ?m3"])
    apply (intro conjI)
           apply (rule s1)
          apply (rule s2)
         apply (rule s3)
    using d1 d2 d3 e2 e3 by (simp_all only: indexEntries_upd entriesFor_def)
qed


theorem index_one_entry_per_path_witness:
  "distinct (map fst (indexEntries (Up Map.empty) (js ''p1''))) \<and>
   (\<exists>st1 st2 st3.
      upsertFiles (\<lambda>i. 1000) (js ''p1'')
        [\<lparr>ipath = js ''a/b.js'', icontent = Str (js ''one''), ilanguage = Undefined\<rparr>] (Up Map.empty)
        = Inr st1 \<and>
      upsertFiles (\<lambda>i. 2000) (js ''p1'')
        [\<lparr>ipath = js ''a/b.js'', icontent = Str (js ''two''), ilanguage = Str (js ''js'')\<rparr>] st1
        = Inr st2 \<and>
      deleteFiles (js ''p1'') [js ''a/b.js''] st2 = Inr st3 \<and>
      entriesFor st2 (js ''p1'') (js ''a/b.js'') =
        [(fileId (js ''p1'') (js ''a/b.js''),
          \<lparr>document = js ''two'',
           metadata = \<lparr>mpath = js ''a/b.js'', mlanguage = js ''js'', lastModified = 2000\<rparr>\<rparr>)] \<and>
      entriesFor st3 (js ''p1'') (js ''a/b.js'') = [])"
proof -
  have d: "distinct (map fst (indexEntries (Up Map.empty) (js ''p1'')))"
    by (simp add: indexEntries_def)
  have "js ''two'' \<noteq> []" "js ''js'' \<noteq> []"
    by (simp_all add: js_eq_Nil)
  with d index_one_entry_per_path
    [of Map.empty "js ''p1''" "\<lambda>i. 1000" "js ''a/b.js''" "Str (js ''one'')" Undefined
        "\<lambda>i. 2000" "Str (js ''two'')" "Str (js ''js'')"]
  show ?thesis by auto
qed

section \<open>Properties of retrieval\<close>

text \<open>
  C3, as stated: when the project has no index yet the result is the empty context with
  the empty structure. It fails for a reachable store whose query finds nothing: the
  collection is created and the structure is \<open>Empty project\<close>.
\<close>

theorem queryRelevantFiles_no_index_counterexample:
  "map_sum id fst (queryRelevantFiles codeUnitCompare noOutline emptyAnswer (js ''p1'') (js ''button'') 5 (Up Map.empty))
     = Inr \<lparr>files = [], structure = js ''Empty project''\<rparr> \<and>
   \<lparr>files = [], structure = js ''Empty project''\<rparr> \<noteq> \<lparr>files = [], structure = []\<rparr>"
  by (simp add: queryRelevantFiles_def queryBody_def getOrCreateCollection_def
      clientGetOrCreateCollection_def clientGetCollection_def emptyAnswer_def resultFiles_def
      getProjectStructure_def js_eq_Nil)

text \<open>
  C3, amended: \<open>queryRelevantFiles\<close> never throws; when the store is unreachable or the
  similarity query throws it returns \<open>{files: [], structure: ''}\<close>; when the store is
  reachable, the project has no collection yet and the query succeeds, the collection is
  created and the result holds the files of the query result and the structure
  \<open>Empty project\<close>.
\<close>

theorem queryRelevantFiles_degrades:
  "(\<exists>r. queryRelevantFiles lc outside search projectId query topK st = Inr r) \<and>
   (st = Unreachable \<longrightarrow>
      queryRelevantFiles lc outside search projectId query topK st
        = Inr (\<lparr>files = [], structure = []\<rparr>, Unreachable)) \<and>
   (st = Up m \<and> search (indexEntries st projectId) query topK = Inl e \<longrightarrow>
      map_sum id fst (queryRelevantFiles lc outside search projectId query topK st)
        = Inr \<lparr>files = [], structure = []\<rparr>) \<and>
   (st = Up m \<and> m (collectionName projectId) = None \<and> search [] query topK = Inr results \<longrightarrow>
      queryRelevantFiles lc outside search projectId query topK st
        = Inr (\<lparr>files = resultFiles results, structure = js ''Empty project''\<rparr>,
               Up (m(collectionName projectId \<mapsto> []))))"
proof (intro conjI impI)
  show "\<exists>r. queryRelevantFiles lc outside search projectId query topK st = Inr r"
    by (auto simp: queryRelevantFiles_def split: sum.splits prod.splits)
next
  assume "st = Unreachable"
  then show "queryRelevantFiles lc outside search projectId query topK st
        = Inr (\<lparr>files = [], structure = []\<rparr>, Unreachable)"
    by (simp add: queryRelevantFiles_def queryBody_def getOrCreateCollection_def
        clientGetOrCreateCollection_def)
next
  assume "st = Up m \<and> search (indexEntries st projectId) query topK = Inl e"
  then show "map_sum id fst (queryRelevantFiles lc outside search projectId query topK st)
        = Inr \<lparr>files = [], structure = []\<rparr>"
    by (auto simp: queryRelevantFiles_def queryBody_def getOrCreateCollection_def
        clientGetOrCreateCollection_def clientGetCollection_def indexEntries_def
        split: option.splits)
next
  assume "st = Up m \<and> m (collectionName projectId) = None \<and> search [] query topK = Inr results"
  then show "queryRelevantFiles lc outside search projectId query topK st
        = Inr (\<lparr>files = resultFiles results, structure = js ''Empty project''\<rparr>,
               Up (m(collectionName projectId \<mapsto> [])))"
    by (simp add: queryRelevantFiles_def queryBody_def getOrCreateCollection_def
        clientGetOrCreateCollection_def clientGetCollection_def getProjectStructure_def)
qed

theorem queryRelevantFiles_degrades_witness:
  "queryRelevantFiles codeUnitCompare noOutline emptyAnswer (js ''p1'') (js ''button'') 5 Unreachable
     = Inr (\<lparr>files = [], structure = []\<rparr>, Unreachable) \<and>
   failingSearch (indexEntries (Up Map.empty) (js ''p1'')) (js ''button'') 5 = Inl QueryError \<and>
   map_sum id fst (queryRelevantFiles codeUnitCompare noOutline failingSearch (js ''p1'') (js ''button'') 5 (Up Map.empty))
     = Inr \<lparr>files = [], structure = []\<rparr> \<and>
   emptyAnswer [] (js ''button'') 5 = Inr \<lparr>documents = Some [], metadatas = Some [], distances = Some []\<rparr> \<and>
   queryRelevantFiles codeUnitCompare noOutline emptyAnswer (js ''p1'') (js ''button'') 5 (Up Map.empty)
     = Inr (\<lparr>files = [], structure = js ''Empty project''\<rparr>,
            Up [collectionName (js ''p1'') \<mapsto> []])"
  using queryRelevantFiles_degrades [of codeUnitCompare noOutline emptyAnswer "js ''p1''" "js ''button''" 5 Unreachable]
    queryRelevantFiles_degrades [of codeUnitCompare noOutline failingSearch "js ''p1''" "js ''button''" 5 "Up Map.empty" Map.empty QueryError]
    queryRelevantFiles_degrades [of codeUnitCompare noOutline emptyAnswer "js ''p1''" "js ''button''" 5 "Up Map.empty" Map.empty _
       "\<lparr>documents = Some [], metadatas = Some [], distances = Some []\<rparr>"]
  by (simp add: failingSearch_def emptyAnswer_def resultFiles_def)


section \<open>Properties of the rename route\<close>




section \<open>Properties of the regular expressions\<close>

lemma occurs_iff: "occurs p s \<longleftrightarrow> (\<exists>a b. s = a @ p @ b)"
proof (induction s)
  case Nil
  then show ?case by auto
next
  case (Cons x xs)
  show ?case
  proof
    assume "occurs p (x # xs)"
    then consider "prefix p (x # xs)" | "occurs p xs" by auto
    then show "\<exists>a b. x # xs = a @ p @ b"
    proof cases
      case 1
      then obtain b where "x # xs = p @ b" by (auto simp: prefix_def)
      then have "x # xs = [] @ p @ b" by simp
      then show ?thesis by blast
    next
      case 2
      with Cons obtain a b where "xs = a @ p @ b" by auto
      then have "x # xs = (x # a) @ p @ b" by simp
      then show ?thesis by blast
    qed
  next
    assume "\<exists>a b. x # xs = a @ p @ b"
    then obtain a b where ab: "x # xs = a @ p @ b" by auto
    show "occurs p (x # xs)"
    proof (cases a)
      case Nil
      with ab have "prefix p (x # xs)" by (simp add: prefix_def)
      then show ?thesis by simp
    next
      case (Cons y ys)
      with ab have "xs = ys @ p @ b" by simp
      with Cons.IH show ?thesis by auto
    qed
  qed
qed

lemma prefix_occurs: "prefix p s \<Longrightarrow> occurs p s"
  by (cases s) auto

lemma occurs_drop: "occurs p (drop k s) \<Longrightarrow> occurs p s"
proof -
  assume "occurs p (drop k s)"
  then obtain a b where "drop k s = a @ p @ b" by (auto simp: occurs_iff)
  then have "s = (take k s @ a) @ p @ b" by (metis append_take_drop_id append.assoc)
  then show ?thesis unfolding occurs_iff by blast
qed

lemma occurs_appendI1: "occurs p u \<Longrightarrow> occurs p (u @ v)"
  unfolding occurs_iff by (metis append.assoc)

lemma occurs_appendI2: "occurs p u \<Longrightarrow> occurs p (v @ u)"
  unfolding occurs_iff by (metis append.assoc)

lemma no_straddle:
  assumes "a \<notin> set q" "\<not> occurs (a # q) u" "u \<noteq> []"
  shows "\<not> prefix (a # q) (u @ (a # q) @ v)"
proof
  assume p: "prefix (a # q) (u @ (a # q) @ v)"
  show False
  proof (cases "length (a # q) \<le> length u")
    case True
    with p have "prefix (a # q) u"
      by (metis prefix_length_prefix prefixI)
    with assms(2) show False using prefix_occurs by blast
  next
    case False
    then have l: "length u < length (a # q)" by simp
    from p have "(u @ (a # q) @ v) ! length u = (a # q) ! length u"
      using l by (metis prefix_def nth_append)
    then have "a = (a # q) ! length u" by (simp add: nth_append)
    moreover from assms(3) l have "(a # q) ! length u \<in> set q"
      by (cases u) auto
    ultimately show False using assms(1) by simp
  qed
qed

lemma rmatch_Lit: "rmatch (Lit l # r) (l @ s) = map_option (addSeg l) (rmatch r s)"
  by simp

lemma rmatch_Lit_None: "\<not> prefix l s \<Longrightarrow> rmatch (Lit l # r) s = None"
  by simp

lemma takeChar_addSeg: "takeChar x (addSeg seg m) = addSeg (x # seg) m"
  by (simp add: addSeg_def)

lemma rmatch_Rep_all:
  "list_all P ws \<Longrightarrow> n \<le> length ws \<Longrightarrow> s = [] \<or> \<not> P (hd s) \<Longrightarrow> rmatch r s = Some m \<Longrightarrow>
     rmatch (Rep n P # r) (ws @ s) = Some (addSeg ws m)"
proof (induction ws arbitrary: n)
  case Nil
  then show ?case by (cases s) auto
next
  case (Cons x ws)
  then have "rmatch (Rep (n - 1) P # r) (ws @ s) = Some (addSeg ws m)" by auto
  with Cons.prems show ?case by (simp add: takeChar_addSeg)
qed

lemma rmatch_Lazy:
  "\<forall>k < length c. rmatch r (drop k c @ s) = None \<Longrightarrow> rmatch r s = Some m \<Longrightarrow>
     rmatch (LazyAny # r) (c @ s) = Some (addSeg c m)"
proof (induction c)
  case Nil
  then show ?case by simp
next
  case (Cons x c)
  from Cons.prems(1) have "rmatch r ((x # c) @ s) = None" by force
  moreover have "\<forall>k < length c. rmatch r (drop k c @ s) = None"
  proof (intro allI impI)
    fix k assume "k < length c"
    then have "Suc k < length (x # c)" by simp
    with Cons.prems(1) have "rmatch r (drop (Suc k) (x # c) @ s) = None" by blast
    then show "rmatch r (drop k c @ s) = None" by simp
  qed
  ultimately show ?case using Cons by (simp add: takeChar_addSeg)
qed

lemma rmatch_Lazy_None_iff:
  "rmatch (LazyAny # r) s = None \<longleftrightarrow> (\<forall>k \<le> length s. rmatch r (drop k s) = None)"
proof (induction s)
  case Nil
  then show ?case by (auto split: option.splits)
next
  case (Cons x xs)
  have "(\<forall>k \<le> length (x # xs). rmatch r (drop k (x # xs)) = None) \<longleftrightarrow>
        rmatch r (x # xs) = None \<and> (\<forall>k \<le> length xs. rmatch r (drop k xs) = None)"
    (is "?L \<longleftrightarrow> ?R")
  proof
    assume l: ?L
    then have "rmatch r (drop 0 (x # xs)) = None" by blast
    moreover have "\<forall>k \<le> length xs. rmatch r (drop k xs) = None"
    proof (intro allI impI)
      fix k assume "k \<le> length xs"
      then have "Suc k \<le> length (x # xs)" by simp
      with l have "rmatch r (drop (Suc k) (x # xs)) = None" by blast
      then show "rmatch r (drop k xs) = None" by simp
    qed
    ultimately show ?R by simp
  next
    assume r: ?R
    show ?L
    proof (intro allI impI)
      fix k assume "k \<le> length (x # xs)"
      with r show "rmatch r (drop k (x # xs)) = None" by (cases k) auto
    qed
  qed
  with Cons show ?case by (auto split: option.splits)
qed

lemma rsearch_None_iff:
  "rsearch r s = None \<longleftrightarrow> (\<forall>k \<le> length s. rmatch r (drop k s) = None)"
proof (induction s)
  case Nil
  then show ?case by auto
next
  case (Cons x xs)
  have "(\<forall>k \<le> length (x # xs). rmatch r (drop k (x # xs)) = None) \<longleftrightarrow>
        rmatch r (x # xs) = None \<and> (\<forall>k \<le> length xs. rmatch r (drop k xs) = None)"
    (is "?L \<longleftrightarrow> ?R")
  proof
    assume l: ?L
    then have "rmatch r (drop 0 (x # xs)) = None" by blast
    moreover have "\<forall>k \<le> length xs. rmatch r (drop k xs) = None"
    proof (intro allI impI)
      fix k assume "k \<le> length xs"
      then have "Suc k \<le> length (x # xs)" by simp
      with l have "rmatch r (drop (Suc k) (x # xs)) = None" by blast
      then show "rmatch r (drop k xs) = None" by simp
    qed
    ultimately show ?R by simp
  next
    assume r: ?R
    show ?L
    proof (intro allI impI)
      fix k assume "k \<le> length (x # xs)"
      with r show "rmatch r (drop k (x # xs)) = None" by (cases k) auto
    qed
  qed
  with Cons show ?case by (auto split: option.splits)
qed

lemma rsearch_at:
  "\<forall>k < length pre. rmatch r (drop k pre @ s) = None \<Longrightarrow> rmatch r s = Some m \<Longrightarrow>
     rsearch r (pre @ s) = Some (pre, m)"
proof (induction pre)
  case Nil
  then show ?case by (cases s) auto
next
  case (Cons x pre)
  from Cons.prems(1) have "rmatch r ((x # pre) @ s) = None" by force
  moreover have "\<forall>k < length pre. rmatch r (drop k pre @ s) = None"
  proof (intro allI impI)
    fix k assume "k < length pre"
    then have "Suc k < length (x # pre)" by simp
    with Cons.prems(1) have "rmatch r (drop (Suc k) (x # pre) @ s) = None" by blast
    then show "rmatch r (drop k pre @ s) = None" by simp
  qed
  ultimately show ?case using Cons by simp
qed

lemma rmatch_segs: "rmatch r s = Some m \<Longrightarrow> list_all2 segOK r (fst m)"
proof (induction r s arbitrary: m rule: rmatch.induct)
  case (1 s)
  then show ?case by auto
next
  case (2 l r s)
  then show ?case by (auto simp: addSeg_def split: if_splits)
next
  case (3 n P r)
  then show ?case by (auto simp: addSeg_def split: if_splits)
next
  case (4 n P r x xs)
  show ?case
  proof (cases "P x \<and> rmatch (Rep (n - 1) P # r) xs \<noteq> None")
    case True
    then obtain m' where m': "rmatch (Rep (n - 1) P # r) xs = Some m'" by blast
    with True "4.prems" have m: "m = takeChar x m'" by simp
    from "4.IH"(1) [OF _ m'] True have "list_all2 segOK (Rep (n - 1) P # r) (fst m')" by auto
    then obtain seg segs where "fst m' = seg # segs" "n - 1 \<le> length seg" "list_all P seg"
      "list_all2 segOK r segs"
      by (auto simp: list_all2_Cons1)
    with m True show ?thesis by (cases m') auto
  next
    case False
    with "4.prems" obtain m' where n: "n = 0" and m': "rmatch r (x # xs) = Some m'"
      and m: "m = addSeg [] m'"
      by (auto split: if_splits option.splits)
    have "(if P x then map_option (takeChar x) (rmatch (Rep (n - 1) P # r) xs) else None) = None"
      using False by (cases "rmatch (Rep (n - 1) P # r) xs") auto
    from "4.IH"(2) [OF this n m'] m n show ?thesis by (simp add: addSeg_def)
  qed
next
  case (5 r s)
  show ?case
  proof (cases "rmatch r s")
    case (Some m')
    with "5.prems" have "m = addSeg [] m'" by simp
    with "5.IH"(1) [OF Some] show ?thesis by (simp add: addSeg_def)
  next
    case None
    with "5.prems" obtain x xs m' where s: "s = x # xs" and m': "rmatch (LazyAny # r) xs = Some m'"
      and m: "m = takeChar x m'"
      by (auto split: list.splits)
    from "5.IH"(2) [OF None s m'] have "list_all2 segOK (LazyAny # r) (fst m')" .
    then obtain seg segs where "fst m' = seg # segs" "list_all2 segOK r segs"
      by (auto simp: list_all2_Cons1)
    with m show ?thesis by (cases m') auto
  qed
qed

lemma fileRegex_shape:
  assumes "rmatch fileRegex s = Some m"
  shows "\<exists>ws1 p ws2 l c.
           fst m = [js ''<file'', ws1, js ''path=\"'', p, js ''\"'', ws2, js ''language=\"'', l,
                    js ''\">'', c, js ''</file>''] \<and>
           s = js ''<file'' @ ws1 @ js ''path=\"'' @ p @ js ''\"'' @ ws2 @ js ''language=\"'' @ l
                 @ js ''\">'' @ c @ js ''</file>'' @ snd m \<and>
           ws1 \<noteq> [] \<and> list_all isWhiteSpace ws1 \<and> ws2 \<noteq> [] \<and> list_all isWhiteSpace ws2 \<and>
           p \<noteq> [] \<and> of_char CHR 0x22 \<notin> set p \<and> l \<noteq> [] \<and> of_char CHR 0x22 \<notin> set l"
proof -
  from rmatch_segs [OF assms] obtain ws1 p ws2 l c where
    segs: "fst m = [js ''<file'', ws1, js ''path=\"'', p, js ''\"'', ws2, js ''language=\"'', l,
                    js ''\">'', c, js ''</file>'']"
    and c: "1 \<le> length ws1" "list_all isWhiteSpace ws1" "1 \<le> length ws2" "list_all isWhiteSpace ws2"
      "1 \<le> length p" "list_all (\<lambda>c. c \<noteq> of_char CHR 0x22) p"
      "1 \<le> length l" "list_all (\<lambda>c. c \<noteq> of_char CHR 0x22) l"
    unfolding fileRegex_def by (auto simp: list_all2_Cons1)
  from rmatch_sound [OF assms] segs
  have "s = js ''<file'' @ ws1 @ js ''path=\"'' @ p @ js ''\"'' @ ws2 @ js ''language=\"'' @ l
                 @ js ''\">'' @ c @ js ''</file>'' @ snd m"
    by simp
  moreover from c have "ws1 \<noteq> []" "ws2 \<noteq> []" "p \<noteq> []" "l \<noteq> []"
    "of_char CHR 0x22 \<notin> set p" "of_char CHR 0x22 \<notin> set l"
    by (auto simp: list_all_iff)
  ultimately show ?thesis using segs c by blast
qed

lemma fileRegex_open_close:
  assumes "rmatch fileRegex s = Some m"
  shows "prefix (js ''<file'') s \<and> occurs (js ''</file>'') s"
proof -
  from fileRegex_shape [OF assms] obtain ws1 p ws2 l c where
    s: "s = js ''<file'' @ ws1 @ js ''path=\"'' @ p @ js ''\"'' @ ws2 @ js ''language=\"'' @ l
                 @ js ''\">'' @ c @ js ''</file>'' @ snd m"
    by blast
  then have "prefix (js ''<file'') s" by (metis prefixI)
  moreover from s have "s = (js ''<file'' @ ws1 @ js ''path=\"'' @ p @ js ''\"'' @ ws2 @ js ''language=\"'' @ l
                 @ js ''\">'' @ c) @ js ''</file>'' @ snd m"
    by simp
  then have "occurs (js ''</file>'') s" unfolding occurs_iff by blast
  ultimately show ?thesis by simp
qed

lemma parseLoop_None:
  "rsearch fileRegex s = None \<Longrightarrow> parseLoop s fs cleaned = (fs, cleaned)"
  by simp

lemma unclosed_drop:
  "unclosed s \<Longrightarrow> prefix (js ''<file'') (drop k s) \<Longrightarrow> \<not> occurs (js ''</file>'') (drop k s)"
proof (induction s arbitrary: k)
  case Nil
  then show ?case by (simp add: js_def)
next
  case (Cons x xs)
  then show ?case by (cases k) auto
qed


section \<open>Properties of response parsing\<close>

lemma run_unique:
  "list_all P a \<Longrightarrow> list_all P b \<Longrightarrow> \<not> P x \<Longrightarrow> \<not> P y \<Longrightarrow> a @ x # u = b @ y # v \<Longrightarrow>
     a = b \<and> x = y \<and> u = v"
proof (induction a arbitrary: b)
  case Nil
  then show ?case by (cases b) auto
next
  case (Cons c a)
  then show ?case by (cases b) auto
qed

lemma not_ws: "\<not> isWhiteSpace 112" "\<not> isWhiteSpace 108" "\<not> isWhiteSpace 62"
  by (simp_all add: isWhiteSpace_def)

lemma attr_mismatch:
  assumes "list_all isWhiteSpace ws1" "list_all isWhiteSpace w"
    and "ws1 @ js ''path=\"'' @ u = w @ js ''language=\"'' @ v"
  shows False
proof -
  from assms(3) have "ws1 @ 112 # (js ''ath=\"'' @ u) = w @ 108 # (js ''anguage=\"'' @ v)"
    by (simp add: js_def)
  from run_unique [OF assms(1,2) not_ws(1,2) this] show False by simp
qed

lemma attr_path:
  assumes "list_all isWhiteSpace ws1" "list_all isWhiteSpace w"
    and "ws1 @ js ''path='' @ u = w @ js ''path='' @ v"
  shows "ws1 = w \<and> u = v"
proof -
  from assms(3) have "ws1 @ 112 # (js ''ath='' @ u) = w @ 112 # (js ''ath='' @ v)"
    by (simp add: js_def)
  from run_unique [OF assms(1,2) not_ws(1,1) this] show ?thesis by simp
qed

lemma attr_language:
  assumes "list_all isWhiteSpace ws1" "list_all isWhiteSpace w"
    and "ws1 @ js ''language='' @ u = w @ js ''language='' @ v"
  shows "ws1 = w \<and> u = v"
proof -
  from assms(3) have "ws1 @ 108 # (js ''anguage='' @ u) = w @ 108 # (js ''anguage='' @ v)"
    by (simp add: js_def)
  from run_unique [OF assms(1,2) not_ws(2,2) this] show ?thesis by simp
qed

lemma quoted_value:
  assumes "(34 :: jschar) \<notin> set p" "34 \<notin> set p'" "p @ 34 # u = p' @ 34 # v"
  shows "p = p' \<and> u = v"
  using run_unique [of "\<lambda>c. c \<noteq> 34" p p' 34 34 u v] assms by (auto simp: list_all_iff)

lemma js_split: "js (a @ b) = js a @ js b"
  by (simp add: js_def)

lemma malformedTag_no_match:
  assumes "malformedTag t"
  shows "rmatch fileRegex (t @ rest) = None"
proof (rule ccontr)
  assume "rmatch fileRegex (t @ rest) \<noteq> None"
  then obtain m where "rmatch fileRegex (t @ rest) = Some m" by blast
  from fileRegex_shape [OF this] obtain ws1 p' ws2 l' c where
    s: "t @ rest = js ''<file'' @ ws1 @ js ''path=\"'' @ p' @ js ''\"'' @ ws2 @ js ''language=\"'' @ l'
                 @ js ''\">'' @ c @ js ''</file>'' @ snd m"
    and ws1: "ws1 \<noteq> []" "list_all isWhiteSpace ws1" and ws2: "ws2 \<noteq> []" "list_all isWhiteSpace ws2"
    and p': "of_char CHR 0x22 \<notin> set p'"
    by blast
  have pq: "js ''path=\"'' = js ''path='' @ [34]" "js ''language=\"'' = js ''language='' @ [34]"
    "js ''\"'' = [34]" "js ''\">'' = [34, 62]" "js ''>'' = [62]"
    by (simp_all add: js_def)
  from assms s show False
  proof cases
    case (languageFirst w l w2 p)
    with s have "ws1 @ js ''path=\"'' @ (p' @ js ''\"'' @ ws2 @ js ''language=\"'' @ l'
                 @ js ''\">'' @ c @ js ''</file>'' @ snd m)
       = w @ js ''language=\"'' @ (l @ js ''\"'' @ w2 @ js ''path=\"'' @ p @ js ''\">'' @ rest)"
      by simp
    from attr_mismatch [OF ws1(2) languageFirst(2) this] show False .
  next
    case (pathOmitted w l)
    with s have "ws1 @ js ''path=\"'' @ (p' @ js ''\"'' @ ws2 @ js ''language=\"'' @ l'
                 @ js ''\">'' @ c @ js ''</file>'' @ snd m)
       = w @ js ''language=\"'' @ (l @ js ''\">'' @ rest)"
      by simp
    from attr_mismatch [OF ws1(2) pathOmitted(2) this] show False .
  next
    case (singleQuotedPath w p w2 q l)
    with s have "ws1 @ js ''path='' @ (34 # p' @ js ''\"'' @ ws2 @ js ''language=\"'' @ l'
                 @ js ''\">'' @ c @ js ''</file>'' @ snd m)
       = w @ js ''path='' @ (39 # p @ [39] @ w2 @ js ''language='' @ [q] @ l @ [q] @ js ''>'' @ rest)"
      by (simp add: pq)
    from attr_path [OF ws1(2) singleQuotedPath(2) this] show False by simp
  next
    case (languageOmitted w p)
    with s have "ws1 @ js ''path='' @ (34 # p' @ 34 # ws2 @ js ''language=\"'' @ l'
                 @ js ''\">'' @ c @ js ''</file>'' @ snd m)
       = w @ js ''path='' @ (34 # p @ 34 # 62 # rest)"
      by (simp add: pq)
    from attr_path [OF ws1(2) languageOmitted(2) this]
    have "p' @ 34 # (ws2 @ js ''language=\"'' @ l' @ js ''\">'' @ c @ js ''</file>'' @ snd m)
        = p @ 34 # (62 # rest)"
      by simp
    from quoted_value [OF _ _ this] p' languageOmitted(3)
    have "ws2 @ js ''language=\"'' @ l' @ js ''\">'' @ c @ js ''</file>'' @ snd m = 62 # rest"
      by simp
    with ws2 have "isWhiteSpace 62" by (cases ws2) auto
    with not_ws show False by simp
  next
    case (singleQuotedLanguage w p w2 l)
    with s have "ws1 @ js ''path='' @ (34 # p' @ 34 # ws2 @ js ''language=\"'' @ l'
                 @ js ''\">'' @ c @ js ''</file>'' @ snd m)
       = w @ js ''path='' @ (34 # p @ 34 # w2 @ js ''language='' @ 39 # l @ 39 # 62 # rest)"
      by (simp add: pq)
    from attr_path [OF ws1(2) singleQuotedLanguage(2) this]
    have "p' @ 34 # (ws2 @ js ''language=\"'' @ l' @ js ''\">'' @ c @ js ''</file>'' @ snd m)
        = p @ 34 # (w2 @ js ''language='' @ 39 # l @ 39 # 62 # rest)"
      by simp
    from quoted_value [OF _ _ this] p' singleQuotedLanguage(3)
    have "ws2 @ js ''language='' @ (34 # l' @ js ''\">'' @ c @ js ''</file>'' @ snd m)
        = w2 @ js ''language='' @ (39 # l @ 39 # 62 # rest)"
      by (simp add: pq)
    from attr_language [OF ws2(2) singleQuotedLanguage(4) this] show False by simp
  next
    case attributesOmitted
    with s have "ws1 @ js ''path=\"'' @ p' @ js ''\"'' @ ws2 @ js ''language=\"'' @ l'
                 @ js ''\">'' @ c @ js ''</file>'' @ snd m = 62 # rest"
      by (simp add: js_def)
    with ws1 have "isWhiteSpace 62" by (cases ws1) auto
    with not_ws show False by simp
  qed
qed

text \<open>
  C10: the regular expression does not match at a malformed opening tag, whatever
  follows it, so no file is extracted from that tag; and when the text holds no other
  \<open><file\<close>, no file is extracted at all.
\<close>

theorem malformed_tag_not_extracted:
  "malformedTag t \<Longrightarrow>
     rmatch fileRegex (t @ rest) = None \<and>
     (\<not> occurs (js ''<file'') pre \<and> \<not> occurs (js ''<file'') (tl (t @ rest)) \<longrightarrow>
        generatedFiles (parseClaudeResponse (pre @ t @ rest)) = [])"
proof (intro conjI impI)
  assume t: "malformedTag t"
  then show n: "rmatch fileRegex (t @ rest) = None" by (rule malformedTag_no_match)
  assume o: "\<not> occurs (js ''<file'') pre \<and> \<not> occurs (js ''<file'') (tl (t @ rest))"
  from t obtain t' where t': "t = js ''<file'' @ t'"
    by cases (auto simp: js_split [of "''<file''" "''>''", simplified])
  have f: "js ''<file'' = 60 # js ''file''" "60 \<notin> set (js ''file'')"
    by (simp_all add: js_def)
  have "rsearch fileRegex (pre @ t @ rest) = None"
    unfolding rsearch_None_iff
  proof (intro allI impI)
    fix k
    show "rmatch fileRegex (drop k (pre @ t @ rest)) = None"
    proof (rule ccontr)
      assume "rmatch fileRegex (drop k (pre @ t @ rest)) \<noteq> None"
      then obtain m where m: "rmatch fileRegex (drop k (pre @ t @ rest)) = Some m" by blast
      from fileRegex_open_close [OF m] have p: "prefix (js ''<file'') (drop k (pre @ t @ rest))"
        by simp
      consider "k < length pre" | "k = length pre" | "length pre < k" by linarith
      then show False
      proof cases
        case 1
        then have d: "drop k pre \<noteq> []" by simp
        from o have "\<not> occurs (js ''<file'') (drop k pre)" using occurs_drop by blast
        with f d have "\<not> prefix (js ''<file'') (drop k pre @ js ''<file'' @ (t' @ rest))"
          using no_straddle [of 60 "js ''file''" "drop k pre" "t' @ rest"] by simp
        with p 1 t' show False by simp
      next
        case 2
        with m n show False by simp
      next
        case 3
        then obtain j where j: "k = Suc (length pre + j)"
          by (metis less_iff_Suc_add add_Suc_right)
        have "t @ rest \<noteq> []" using t' by (simp add: js_def)
        then have "drop k (pre @ t @ rest) = drop j (tl (t @ rest))"
          using j by (cases "t @ rest") (simp_all del: append_eq_append_conv2)
        with p have "occurs (js ''<file'') (tl (t @ rest))"
          using prefix_occurs occurs_drop by metis
        with o show False by simp
      qed
    qed
  qed
  then show "generatedFiles (parseClaudeResponse (pre @ t @ rest)) = []"
    by (simp add: parseClaudeResponse_def)
qed

theorem malformed_tag_not_extracted_witness:
  "malformedTag (js ''<file language=\"js\" path=\"a\">'') \<and>
   rmatch fileRegex (js ''<file language=\"js\" path=\"a\">'' @ js ''x</file> bye'') = None \<and>
   \<not> occurs (js ''<file'') (js ''see '') \<and>
   \<not> occurs (js ''<file'') (tl (js ''<file language=\"js\" path=\"a\">'' @ js ''x</file> bye'')) \<and>
   generatedFiles (parseClaudeResponse
       (js ''see '' @ js ''<file language=\"js\" path=\"a\">'' @ js ''x</file> bye'')) = []"
proof -
  have "list_all isWhiteSpace (js '' '')"
    by (simp add: js_def isWhiteSpace_def)
  from malformedTag.languageFirst [OF this, of "js ''js''" "js '' ''" "js ''a''"]
  have t: "malformedTag (js ''<file language=\"js\" path=\"a\">'')"
    by (simp add: js_def)
  have o: "\<not> occurs (js ''<file'') (js ''see '')"
    "\<not> occurs (js ''<file'') (tl (js ''<file language=\"js\" path=\"a\">'' @ js ''x</file> bye''))"
    by code_simp+
  from malformed_tag_not_extracted [OF t, of "js ''x</file> bye''" "js ''see ''"] t o
  show ?thesis by simp
qed

lemma thinkingRegex_match:
  assumes "\<not> occurs (js ''</thinking>'') c"
  shows "rmatch thinkingRegex (js ''<thinking>'' @ c @ js ''</thinking>'' @ b)
         = Some ([js ''<thinking>'', c, js ''</thinking>''], b)"
proof -
  have f: "js ''</thinking>'' = 60 # js ''/thinking>''" "60 \<notin> set (js ''/thinking>'')"
    by (simp_all add: js_def)
  have e: "rmatch [Lit (js ''</thinking>'')] (js ''</thinking>'' @ b) = Some ([js ''</thinking>''], b)"
    by (simp add: addSeg_def)
  have "\<forall>k < length c. rmatch [Lit (js ''</thinking>'')] (drop k c @ js ''</thinking>'' @ b) = None"
  proof (intro allI impI)
    fix k assume "k < length c"
    then have "drop k c \<noteq> []" by simp
    moreover from assms have "\<not> occurs (js ''</thinking>'') (drop k c)" using occurs_drop by blast
    ultimately have "\<not> prefix (js ''</thinking>'') (drop k c @ js ''</thinking>'' @ b)"
      using no_straddle [of 60 "js ''/thinking>''" "drop k c" b] f by simp
    then show "rmatch [Lit (js ''</thinking>'')] (drop k c @ js ''</thinking>'' @ b) = None"
      by (rule rmatch_Lit_None)
  qed
  from rmatch_Lazy [OF this e]
  have "rmatch [LazyAny, Lit (js ''</thinking>'')] (c @ js ''</thinking>'' @ b)
        = Some ([c, js ''</thinking>''], b)"
    by (simp add: addSeg_def)
  then show ?thesis
    unfolding thinkingRegex_def by (simp only: rmatch_Lit) (simp add: addSeg_def)
qed

lemma extractThinking_first:
  assumes "\<not> occurs (js ''<thinking>'') a" "\<not> occurs (js ''</thinking>'') c"
  shows "extractThinking (a @ js ''<thinking>'' @ c @ js ''</thinking>'' @ b) = Some (trim c)"
proof -
  have f: "js ''<thinking>'' = 60 # js ''thinking>''" "60 \<notin> set (js ''thinking>'')"
    by (simp_all add: js_def)
  have "\<forall>k < length a. rmatch thinkingRegex (drop k a @ js ''<thinking>'' @ c @ js ''</thinking>'' @ b) = None"
  proof (intro allI impI)
    fix k assume "k < length a"
    then have "drop k a \<noteq> []" by simp
    moreover from assms(1) have "\<not> occurs (js ''<thinking>'') (drop k a)" using occurs_drop by blast
    ultimately have "\<not> prefix (js ''<thinking>'') (drop k a @ js ''<thinking>'' @ (c @ js ''</thinking>'' @ b))"
      using no_straddle [of 60 "js ''thinking>''" "drop k a" "c @ js ''</thinking>'' @ b"] f by simp
    then show "rmatch thinkingRegex (drop k a @ js ''<thinking>'' @ c @ js ''</thinking>'' @ b) = None"
      unfolding thinkingRegex_def by (rule rmatch_Lit_None)
  qed
  from rsearch_at [OF this thinkingRegex_match [OF assms(2)]]
  show ?thesis by (simp add: extractThinking_def)
qed

lemma extractThinking_None_iff:
  "extractThinking raw = None \<longleftrightarrow>
     \<not> (\<exists>a c b. raw = a @ js ''<thinking>'' @ c @ js ''</thinking>'' @ b)"
proof -
  have n: "extractThinking raw = None \<longleftrightarrow> rsearch thinkingRegex raw = None"
    by (auto simp: extractThinking_def split: option.splits)
  show ?thesis
  proof
    assume "extractThinking raw = None"
    with n have r: "\<forall>k \<le> length raw. rmatch thinkingRegex (drop k raw) = None"
      by (simp add: rsearch_None_iff)
    show "\<not> (\<exists>a c b. raw = a @ js ''<thinking>'' @ c @ js ''</thinking>'' @ b)"
    proof
      assume "\<exists>a c b. raw = a @ js ''<thinking>'' @ c @ js ''</thinking>'' @ b"
      then obtain a c b where raw: "raw = a @ js ''<thinking>'' @ c @ js ''</thinking>'' @ b"
        by blast
      from raw have "length a \<le> length raw" by simp
      with r have "rmatch thinkingRegex (drop (length a) raw) = None" by blast
      with raw have "rmatch thinkingRegex (js ''<thinking>'' @ (c @ js ''</thinking>'' @ b)) = None"
        by simp
      then have "map_option (addSeg (js ''<thinking>''))
          (rmatch [LazyAny, Lit (js ''</thinking>'')] (c @ js ''</thinking>'' @ b)) = None"
        unfolding thinkingRegex_def by (simp only: rmatch_Lit)
      then have "rmatch [LazyAny, Lit (js ''</thinking>'')] (c @ js ''</thinking>'' @ b) = None"
        by simp
      then have "\<forall>k \<le> length (c @ js ''</thinking>'' @ b).
          rmatch [Lit (js ''</thinking>'')] (drop k (c @ js ''</thinking>'' @ b)) = None"
        by (simp only: rmatch_Lazy_None_iff)
      moreover have "length c \<le> length (c @ js ''</thinking>'' @ b)" by simp
      ultimately have "rmatch [Lit (js ''</thinking>'')] (drop (length c) (c @ js ''</thinking>'' @ b)) = None"
        by blast
      then show False by simp
    qed
  next
    assume d: "\<not> (\<exists>a c b. raw = a @ js ''<thinking>'' @ c @ js ''</thinking>'' @ b)"
    have "rsearch thinkingRegex raw = None"
    proof (rule ccontr)
      assume "rsearch thinkingRegex raw \<noteq> None"
      then obtain pre m where s: "rsearch thinkingRegex raw = Some (pre, m)" by auto
      from rsearch_sound [OF s] have raw: "raw = pre @ concat (fst m) @ snd m"
        and m: "rmatch thinkingRegex (drop (length pre) raw) = Some m"
        by auto
      from rmatch_segs [OF m] obtain c where "fst m = [js ''<thinking>'', c, js ''</thinking>'']"
        unfolding thinkingRegex_def by (auto simp: list_all2_Cons1)
      with raw have "raw = pre @ js ''<thinking>'' @ c @ js ''</thinking>'' @ snd m" by simp
      with d show False by blast
    qed
    with n show "extractThinking raw = None" by simp
  qed
qed

text \<open>
  C4: the thinking field is \<open>extractThinking\<close> of the original raw text. It is \<open>null\<close>
  exactly when the raw text holds no \<open><thinking>\<close> followed by a \<open></thinking>\<close>;
  otherwise it is the trimmed content of the first block (the first \<open><thinking>\<close> up to
  the first \<open></thinking>\<close> after it). The example of the specification parses as stated,
  and a thinking block inside a file block is still found.
\<close>

theorem thinking_from_raw_text:
  "thinking (parseClaudeResponse raw) = extractThinking raw \<and>
   (extractThinking raw = None \<longleftrightarrow>
      \<not> (\<exists>a c b. raw = a @ js ''<thinking>'' @ c @ js ''</thinking>'' @ b)) \<and>
   (\<not> occurs (js ''<thinking>'') a \<and> \<not> occurs (js ''</thinking>'') c \<longrightarrow>
      extractThinking (a @ js ''<thinking>'' @ c @ js ''</thinking>'' @ b) = Some (trim c)) \<and>
   parseClaudeResponse (js ''<thinking>X</thinking>Hello'') =
     \<lparr>message = js ''Hello'', generatedFiles = [], thinking = Some (js ''X'')\<rparr> \<and>
   parseClaudeResponse (js ''<file path=\"a\" language=\"b\"><thinking> t </thinking></file>'') =
     \<lparr>message = [],
      generatedFiles = [\<lparr>path = js ''a'', language = js ''b'', content = js ''<thinking> t </thinking>''\<rparr>],
      thinking = Some (js ''t'')\<rparr>"
proof (intro conjI impI)
  show "thinking (parseClaudeResponse raw) = extractThinking raw"
    by (simp add: parseClaudeResponse_def split: prod.splits)
  show "extractThinking raw = None \<longleftrightarrow>
      \<not> (\<exists>a c b. raw = a @ js ''<thinking>'' @ c @ js ''</thinking>'' @ b)"
    by (rule extractThinking_None_iff)
  show "parseClaudeResponse (js ''<thinking>X</thinking>Hello'') =
     \<lparr>message = js ''Hello'', generatedFiles = [], thinking = Some (js ''X'')\<rparr>"
    by code_simp
  show "parseClaudeResponse (js ''<file path=\"a\" language=\"b\"><thinking> t </thinking></file>'') =
     \<lparr>message = [],
      generatedFiles = [\<lparr>path = js ''a'', language = js ''b'', content = js ''<thinking> t </thinking>''\<rparr>],
      thinking = Some (js ''t'')\<rparr>"
    by code_simp
next
  assume "\<not> occurs (js ''<thinking>'') a \<and> \<not> occurs (js ''</thinking>'') c"
  then show "extractThinking (a @ js ''<thinking>'' @ c @ js ''</thinking>'' @ b) = Some (trim c)"
    using extractThinking_first by blast
qed

theorem thinking_from_raw_text_witness:
  "\<not> occurs (js ''<thinking>'') (js ''a <thinking '') \<and> \<not> occurs (js ''</thinking>'') (js '' one '') \<and>
   extractThinking (js ''a <thinking '' @ js ''<thinking>'' @ js '' one '' @ js ''</thinking>''
       @ js ''b<thinking>two</thinking>'') = Some (js ''one'')"
proof -
  have o: "\<not> occurs (js ''<thinking>'') (js ''a <thinking '')"
    "\<not> occurs (js ''</thinking>'') (js '' one '')"
    by code_simp+
  have "trim (js '' one '') = js ''one''" by code_simp
  with thinking_from_raw_text [of "js ''''" "js ''a <thinking ''" "js '' one ''" "js ''b<thinking>two</thinking>''"] o
  show ?thesis by simp
qed

lemma block_match:
  assumes "wellFormed b"
  shows "rmatch fileRegex (blockText b @ R) =
           Some ([js ''<file'', sep1 b, js ''path=\"'', attrPath b, js ''\"'', sep2 b,
                  js ''language=\"'', attrLanguage b, js ''\">'', body b, js ''</file>''], R)"
proof -
  let ?r10 = "[Lit (js ''</file>'')]"
  let ?r9 = "LazyAny # ?r10"
  let ?r8 = "Lit (js ''\">'') # ?r9"
  let ?r7 = "Rep 1 (\<lambda>c. c \<noteq> of_char CHR 0x22) # ?r8"
  let ?r6 = "Lit (js ''language=\"'') # ?r7"
  let ?r5 = "Rep 1 isWhiteSpace # ?r6"
  let ?r4 = "Lit (js ''\"'') # ?r5"
  let ?r3 = "Rep 1 (\<lambda>c. c \<noteq> of_char CHR 0x22) # ?r4"
  let ?r2 = "Lit (js ''path=\"'') # ?r3"
  let ?r1 = "Rep 1 isWhiteSpace # ?r2"
  let ?s10 = "js ''</file>'' @ R"
  let ?s9 = "body b @ ?s10"
  let ?s8 = "js ''\">'' @ ?s9"
  let ?s7 = "attrLanguage b @ ?s8"
  let ?s6 = "js ''language=\"'' @ ?s7"
  let ?s5 = "sep2 b @ ?s6"
  let ?s4 = "js ''\"'' @ ?s5"
  let ?s3 = "attrPath b @ ?s4"
  let ?s2 = "js ''path=\"'' @ ?s3"
  let ?s1 = "sep1 b @ ?s2"
  from assms have wf: "sep1 b \<noteq> []" "list_all isWhiteSpace (sep1 b)"
    "attrPath b \<noteq> []" "list_all (\<lambda>c. c \<noteq> of_char CHR 0x22) (attrPath b)"
    "sep2 b \<noteq> []" "list_all isWhiteSpace (sep2 b)"
    "attrLanguage b \<noteq> []" "list_all (\<lambda>c. c \<noteq> of_char CHR 0x22) (attrLanguage b)"
    "\<not> occurs (js ''</file>'') (body b)"
    by (auto simp: wellFormed_def list_all_iff)
  have len: "\<And>xs :: jsstring. xs \<noteq> [] \<Longrightarrow> 1 \<le> length xs"
    by (simp add: Suc_leI)
  have f: "js ''</file>'' = 60 # js ''/file>''" "60 \<notin> set (js ''/file>'')"
    by (simp_all add: js_def)
  have m10: "rmatch ?r10 ?s10 = Some ([js ''</file>''], R)"
    by (simp add: addSeg_def)
  have "\<forall>k < length (body b). rmatch ?r10 (drop k (body b) @ ?s10) = None"
  proof (intro allI impI)
    fix k assume "k < length (body b)"
    then have "drop k (body b) \<noteq> []" by simp
    moreover from wf(9) have "\<not> occurs (js ''</file>'') (drop k (body b))"
      using occurs_drop by blast
    ultimately have "\<not> prefix (js ''</file>'') (drop k (body b) @ js ''</file>'' @ R)"
      using no_straddle [of 60 "js ''/file>''" "drop k (body b)" R] f by simp
    then show "rmatch ?r10 (drop k (body b) @ ?s10) = None"
      by (rule rmatch_Lit_None)
  qed
  from rmatch_Lazy [OF this m10]
  have m9: "rmatch ?r9 ?s9 = Some ([body b, js ''</file>''], R)"
    by (simp add: addSeg_def)
  have m8: "rmatch ?r8 ?s8 = Some ([js ''\">'', body b, js ''</file>''], R)"
    by (simp only: rmatch_Lit m9) (simp add: addSeg_def)
  have h8: "?s8 = [] \<or> \<not> (\<lambda>c. c \<noteq> of_char CHR 0x22) (hd ?s8)"
    by (simp add: js_def)
  from rmatch_Rep_all [OF wf(8) len [OF wf(7)] h8 m8]
  have m7: "rmatch ?r7 ?s7 = Some ([attrLanguage b, js ''\">'', body b, js ''</file>''], R)"
    by (simp add: addSeg_def)
  have m6: "rmatch ?r6 ?s6 =
      Some ([js ''language=\"'', attrLanguage b, js ''\">'', body b, js ''</file>''], R)"
    by (simp only: rmatch_Lit m7) (simp add: addSeg_def)
  have h6: "?s6 = [] \<or> \<not> isWhiteSpace (hd ?s6)"
    by (simp add: js_def isWhiteSpace_def)
  from rmatch_Rep_all [OF wf(6) len [OF wf(5)] h6 m6]
  have m5: "rmatch ?r5 ?s5 =
      Some ([sep2 b, js ''language=\"'', attrLanguage b, js ''\">'', body b, js ''</file>''], R)"
    by (simp add: addSeg_def)
  have m4: "rmatch ?r4 ?s4 =
      Some ([js ''\"'', sep2 b, js ''language=\"'', attrLanguage b, js ''\">'', body b,
             js ''</file>''], R)"
    by (simp only: rmatch_Lit m5) (simp add: addSeg_def)
  have h4: "?s4 = [] \<or> \<not> (\<lambda>c. c \<noteq> of_char CHR 0x22) (hd ?s4)"
    by (simp add: js_def)
  from rmatch_Rep_all [OF wf(4) len [OF wf(3)] h4 m4]
  have m3: "rmatch ?r3 ?s3 =
      Some ([attrPath b, js ''\"'', sep2 b, js ''language=\"'', attrLanguage b, js ''\">'', body b,
             js ''</file>''], R)"
    by (simp add: addSeg_def)
  have m2: "rmatch ?r2 ?s2 =
      Some ([js ''path=\"'', attrPath b, js ''\"'', sep2 b, js ''language=\"'', attrLanguage b,
             js ''\">'', body b, js ''</file>''], R)"
    by (simp only: rmatch_Lit m3) (simp add: addSeg_def)
  have h2: "?s2 = [] \<or> \<not> isWhiteSpace (hd ?s2)"
    by (simp add: js_def isWhiteSpace_def)
  from rmatch_Rep_all [OF wf(2) len [OF wf(1)] h2 m2]
  have m1: "rmatch ?r1 ?s1 =
      Some ([sep1 b, js ''path=\"'', attrPath b, js ''\"'', sep2 b, js ''language=\"'',
             attrLanguage b, js ''\">'', body b, js ''</file>''], R)"
    by (simp add: addSeg_def)
  have "rmatch (Lit (js ''<file'') # ?r1) (js ''<file'' @ ?s1) =
      Some ([js ''<file'', sep1 b, js ''path=\"'', attrPath b, js ''\"'', sep2 b, js ''language=\"'',
             attrLanguage b, js ''\">'', body b, js ''</file>''], R)"
    by (simp only: rmatch_Lit m1) (simp add: addSeg_def)
  then show ?thesis by (simp add: fileRegex_def blockText_def)
qed

lemma replaceFirst_at:
  "\<forall>k < length u. \<not> prefix pat (drop k u @ pat @ v) \<Longrightarrow> replaceFirst pat [] (u @ pat @ v) = u @ v"
proof (induction u)
  case Nil
  show ?case
  proof (cases "pat @ v")
    case Nil
    then show ?thesis by simp
  next
    case (Cons a l)
    then have "prefix pat (a # l)" by (metis prefixI)
    moreover from Cons have "drop (length pat) (a # l) = v" by (metis append_eq_conv_conj)
    ultimately show ?thesis using Cons by simp
  qed
next
  case (Cons x u)
  from Cons.prems have "\<not> prefix pat ((x # u) @ pat @ v)" by force
  moreover have "\<forall>k < length u. \<not> prefix pat (drop k u @ pat @ v)"
  proof (intro allI impI)
    fix k assume "k < length u"
    then have "Suc k < length (x # u)" by simp
    with Cons.prems have "\<not> prefix pat (drop (Suc k) (x # u) @ pat @ v)" by blast
    then show "\<not> prefix pat (drop k u @ pat @ v)" by simp
  qed
  ultimately show ?case using Cons.IH by simp
qed

lemma no_open_no_match:
  assumes "\<not> occurs (js ''<file'') s"
  shows "rsearch fileRegex s = None"
  unfolding rsearch_None_iff
proof (intro allI impI)
  fix k
  show "rmatch fileRegex (drop k s) = None"
  proof (rule ccontr)
    assume "rmatch fileRegex (drop k s) \<noteq> None"
    then obtain m where "rmatch fileRegex (drop k s) = Some m" by blast
    from fileRegex_open_close [OF this] have "occurs (js ''<file'') (drop k s)"
      using prefix_occurs by blast
    with assms occurs_drop show False by blast
  qed
qed

lemma open_not_before:
  assumes "\<not> occurs (js ''<file'') u" "k < length u"
  shows "\<not> prefix (js ''<file'') (drop k u @ js ''<file'' @ v)"
proof -
  have f: "js ''<file'' = 60 # js ''file''" "60 \<notin> set (js ''file'')"
    by (simp_all add: js_def)
  from assms have "drop k u \<noteq> []" "\<not> occurs (js ''<file'') (drop k u)"
    using occurs_drop by auto
  then show ?thesis
    using no_straddle [of 60 "js ''file''" "drop k u" v] f by simp
qed

lemma parseLoop_blocks:
  "list_all (\<lambda>tb. wellFormed (snd tb)) tbs \<Longrightarrow>
   \<not> occurs (js ''<file'') (T @ concat (map fst tbs) @ final) \<Longrightarrow>
   parseLoop (interleave tbs final) acc (T @ interleave tbs final) =
     (acc @ map (\<lambda>tb. extracted (snd tb)) tbs, T @ concat (map fst tbs) @ final)"
proof (induction tbs arbitrary: T acc)
  case Nil
  then have "\<not> occurs (js ''<file'') final" using occurs_appendI2 [of _ final T] by auto
  from no_open_no_match [OF this] show ?case by simp
next
  case (Cons tb tbs)
  obtain t b where tb: "tb = (t, b)" by (cases tb)
  let ?R = "interleave tbs final"
  let ?segs = "[js ''<file'', sep1 b, js ''path=\"'', attrPath b, js ''\"'', sep2 b,
                  js ''language=\"'', attrLanguage b, js ''\">'', body b, js ''</file>'']"
  from Cons.prems(1) tb have wf: "wellFormed b" and wfs: "list_all (\<lambda>tb. wellFormed (snd tb)) tbs"
    by auto
  from Cons.prems(2) tb have no: "\<not> occurs (js ''<file'') ((T @ t) @ concat (map fst tbs) @ final)"
    by simp
  then have noTt: "\<not> occurs (js ''<file'') (T @ t)" using occurs_appendI1 by blast
  then have not: "\<not> occurs (js ''<file'') t" using occurs_appendI2 by blast
  obtain b' where b': "blockText b = js ''<file'' @ b'" by (simp add: blockText_def)
  have m: "rmatch fileRegex (blockText b @ ?R) = Some (?segs, ?R)"
    using block_match [OF wf] .
  have "\<forall>k < length t. rmatch fileRegex (drop k t @ blockText b @ ?R) = None"
  proof (intro allI impI)
    fix k assume "k < length t"
    from open_not_before [OF not this, of "b' @ ?R"] b'
    have "\<not> prefix (js ''<file'') (drop k t @ blockText b @ ?R)" by simp
    then show "rmatch fileRegex (drop k t @ blockText b @ ?R) = None"
      unfolding fileRegex_def by (rule rmatch_Lit_None)
  qed
  from rsearch_at [OF this m]
  have s: "rsearch fileRegex (t @ blockText b @ ?R) = Some (t, ?segs, ?R)" .
  have c: "concat ?segs = blockText b" by (simp add: blockText_def)
  have "\<forall>k < length (T @ t). \<not> prefix (blockText b) (drop k (T @ t) @ blockText b @ ?R)"
  proof (intro allI impI)
    fix k assume "k < length (T @ t)"
    from open_not_before [OF noTt this, of "b' @ ?R"] b'
    have "\<not> prefix (js ''<file'') (drop k (T @ t) @ blockText b @ ?R)" by simp
    moreover have "prefix (js ''<file'') (blockText b)" using b' by simp
    ultimately show "\<not> prefix (blockText b) (drop k (T @ t) @ blockText b @ ?R)"
      using prefix_order.trans by blast
  qed
  from replaceFirst_at [OF this]
  have r: "replaceFirst (blockText b) [] (T @ t @ blockText b @ ?R) = (T @ t) @ ?R" by simp
  have e: "\<lparr>path = trim (?segs ! 3), language = trim (?segs ! 7), content = trim (?segs ! 9)\<rparr>
           = extracted b"
    by (simp add: extracted_def)
  have "parseLoop (interleave (tb # tbs) final) acc (T @ interleave (tb # tbs) final) =
        parseLoop ?R (acc @ [extracted b]) ((T @ t) @ ?R)"
    unfolding tb interleave.simps
    by (subst parseLoop.simps) (simp only: s option.case prod.case c r e)
  also have "\<dots> = ((acc @ [extracted b]) @ map (\<lambda>tb. extracted (snd tb)) tbs,
                   (T @ t) @ concat (map fst tbs) @ final)"
    using Cons.IH [OF wfs no] .
  finally show ?case using tb by simp
qed


text \<open>
  When the text around the blocks does not contain \<open><file\<close>, the loop extracts the blocks
  in order and the message is \<open>cleanMessage\<close> of the text around them.
\<close>

lemma parse_wellformed_blocks:
  "list_all (\<lambda>tb. wellFormed (snd tb)) tbs \<and> \<not> occurs (js ''<file'') (outsideText tbs final) \<longrightarrow>
     parseClaudeResponse (interleave tbs final) =
       \<lparr>message = cleanMessage (outsideText tbs final),
        generatedFiles = map (\<lambda>tb. extracted (snd tb)) tbs,
        thinking = extractThinking (interleave tbs final)\<rparr> \<and>
     length (generatedFiles (parseClaudeResponse (interleave tbs final))) = length tbs"
proof
  assume a: "list_all (\<lambda>tb. wellFormed (snd tb)) tbs \<and> \<not> occurs (js ''<file'') (outsideText tbs final)"
  then have "\<not> occurs (js ''<file'') ([] @ concat (map fst tbs) @ final)"
    by (simp add: outsideText_def)
  with a parseLoop_blocks [of tbs "[]" final "[]"]
  have "parseLoop (interleave tbs final) [] (interleave tbs final) =
          (map (\<lambda>tb. extracted (snd tb)) tbs, outsideText tbs final)"
    by (simp add: outsideText_def)
  then show "parseClaudeResponse (interleave tbs final) =
       \<lparr>message = cleanMessage (outsideText tbs final),
        generatedFiles = map (\<lambda>tb. extracted (snd tb)) tbs,
        thinking = extractThinking (interleave tbs final)\<rparr> \<and>
     length (generatedFiles (parseClaudeResponse (interleave tbs final))) = length tbs"
    by (simp add: parseClaudeResponse_def)
qed

lemma parse_wellformed_blocks_example:
  "list_all (\<lambda>tb. wellFormed (snd tb))
     [(js ''Here: '', \<lparr>sep1 = js '' '', attrPath = js '' a.js'', sep2 = js '' '',
                       attrLanguage = js ''js'', body = js ''<filex> 1 ''\<rparr>),
      (js '' and '', \<lparr>sep1 = js '' '', attrPath = js ''b'', sep2 = js '' '',
                      attrLanguage = js ''c'', body = []\<rparr>)] \<and>
   \<not> occurs (js ''<file'') (js ''Here:  and  done'') \<and>
   parseClaudeResponse
     (js ''Here: <file path=\" a.js\" language=\"js\"><filex> 1 </file> and <file path=\"b\" language=\"c\"></file> done'') =
     \<lparr>message = js ''Here:  and  done'',
      generatedFiles = [\<lparr>path = js ''a.js'', language = js ''js'', content = js ''<filex> 1''\<rparr>,
                        \<lparr>path = js ''b'', language = js ''c'', content = []\<rparr>],
      thinking = None\<rparr>"
proof -
  let ?tbs = "[(js ''Here: '', \<lparr>sep1 = js '' '', attrPath = js '' a.js'', sep2 = js '' '',
                       attrLanguage = js ''js'', body = js ''<filex> 1 ''\<rparr>),
      (js '' and '', \<lparr>sep1 = js '' '', attrPath = js ''b'', sep2 = js '' '',
                      attrLanguage = js ''c'', body = []\<rparr>)]"
  have w: "list_all (\<lambda>tb. wellFormed (snd tb)) ?tbs" by code_simp
  have o: "outsideText ?tbs (js '' done'') = js ''Here:  and  done''" by code_simp
  have n: "\<not> occurs (js ''<file'') (js ''Here:  and  done'')" by code_simp
  have i: "interleave ?tbs (js '' done'') =
    js ''Here: <file path=\" a.js\" language=\"js\"><filex> 1 </file> and <file path=\"b\" language=\"c\"></file> done''"
    by code_simp
  have c: "cleanMessage (js ''Here:  and  done'') = js ''Here:  and  done''" by code_simp
  have e: "map (\<lambda>tb. extracted (snd tb)) ?tbs =
      [\<lparr>path = js ''a.js'', language = js ''js'', content = js ''<filex> 1''\<rparr>,
       \<lparr>path = js ''b'', language = js ''c'', content = []\<rparr>]"
    by code_simp
  have t: "extractThinking
     (js ''Here: <file path=\" a.js\" language=\"js\"><filex> 1 </file> and <file path=\"b\" language=\"c\"></file> done'') = None"
    by code_simp
  from parse_wellformed_blocks [of ?tbs "js '' done''"] w n
  show ?thesis unfolding o i c e t by blast
qed


lemma first_occurrence:
  "p \<noteq> [] \<Longrightarrow> occurs p s \<Longrightarrow> \<exists>a b. s = a @ p @ b \<and> \<not> occurs p a"
proof (induction s)
  case Nil
  then show ?case by simp
next
  case (Cons x xs)
  show ?case
  proof (cases "prefix p (x # xs)")
    case True
    then obtain b where "x # xs = [] @ p @ b" by (auto simp: prefix_def)
    moreover have "\<not> occurs p []" using Cons.prems(1) by simp
    ultimately show ?thesis by blast
  next
    case False
    with Cons.prems have "occurs p xs" by simp
    with Cons obtain a b where ab: "xs = a @ p @ b" "\<not> occurs p a" by blast
    have "\<not> prefix p (x # a)"
    proof
      assume "prefix p (x # a)"
      moreover have "prefix (x # a) (x # xs)" using ab by simp
      ultimately have "prefix p (x # xs)" using prefix_order.trans by blast
      with False show False by simp
    qed
    with ab have "\<not> occurs p (x # a)" by simp
    moreover from ab have "x # xs = (x # a) @ p @ b" by simp
    ultimately show ?thesis by blast
  qed
qed

lemma closed_tag_matches:
  assumes "w1 \<noteq> []" "list_all isWhiteSpace w1" "p \<noteq> []" "of_char CHR 0x22 \<notin> set p"
    "w2 \<noteq> []" "list_all isWhiteSpace w2" "l \<noteq> []" "of_char CHR 0x22 \<notin> set l"
  shows "rmatch fileRegex (openingTag w1 p w2 l @ c @ js ''</file>'' @ post) \<noteq> None"
proof -
  have "occurs (js ''</file>'') (c @ js ''</file>'' @ post)"
    unfolding occurs_iff by blast
  moreover have "js ''</file>'' \<noteq> []" by (simp add: js_eq_Nil)
  ultimately obtain c' post' where c': "c @ js ''</file>'' @ post = c' @ js ''</file>'' @ post'"
    "\<not> occurs (js ''</file>'') c'"
    using first_occurrence by blast
  let ?b = "\<lparr>sep1 = w1, attrPath = p, sep2 = w2, attrLanguage = l, body = c'\<rparr>"
  from assms c'(2) have "wellFormed ?b" by (simp add: wellFormed_def)
  from block_match [OF this, of post']
  have "rmatch fileRegex (blockText ?b @ post') \<noteq> None" by simp
  moreover have "blockText ?b @ post' = openingTag w1 p w2 l @ c @ js ''</file>'' @ post"
    using c'(1) by (simp add: blockText_def openingTag_def)
  ultimately show ?thesis by simp
qed

lemma parseLoop_acc: "\<exists>fs'. fst (parseLoop s fs cleaned) = fs @ fs'"
proof (induction s fs cleaned rule: parseLoop.induct)
  case (1 t fs cleanedMessage)
  show ?case
  proof (cases "rsearch fileRegex t")
    case None
    then show ?thesis by simp
  next
    case (Some x)
    obtain pre segs rest where x: "x = (pre, segs, rest)" by (cases x)
    let ?f = "\<lparr>path = trim (segs ! 3), language = trim (segs ! 7), content = trim (segs ! 9)\<rparr>"
    from "1.IH" [OF Some [unfolded x] refl refl]
    obtain fs' where "fst (parseLoop rest (fs @ [?f]) (replaceFirst (concat segs) [] cleanedMessage))
        = (fs @ [?f]) @ fs'"
      by blast
    moreover have "parseLoop t fs cleanedMessage =
        parseLoop rest (fs @ [?f]) (replaceFirst (concat segs) [] cleanedMessage)"
      by (subst parseLoop.simps) (simp only: Some x option.case prod.case)
    ultimately have "fst (parseLoop t fs cleanedMessage) = fs @ (?f # fs')" by simp
    then show ?thesis by blast
  qed
qed

lemma parseLoop_some_file:
  assumes "rsearch fileRegex s \<noteq> None"
  shows "fst (parseLoop s [] cleaned) \<noteq> []"
proof -
  from assms obtain pre segs rest where x: "rsearch fileRegex s = Some (pre, segs, rest)" by auto
  let ?f = "\<lparr>path = trim (segs ! 3), language = trim (segs ! 7), content = trim (segs ! 9)\<rparr>"
  have "parseLoop s [] cleaned = parseLoop rest ([] @ [?f]) (replaceFirst (concat segs) [] cleaned)"
    by (subst parseLoop.simps) (simp only: x option.case prod.case)
  moreover obtain fs' where "fst (parseLoop rest ([] @ [?f]) (replaceFirst (concat segs) [] cleaned))
      = ([] @ [?f]) @ fs'"
    using parseLoop_acc by blast
  ultimately show ?thesis by simp
qed

lemma rsearch_fileRegex_None_iff: "rsearch fileRegex raw = None \<longleftrightarrow> \<not> closedTagIn raw"
proof
  assume n: "rsearch fileRegex raw = None"
  show "\<not> closedTagIn raw"
  proof
    assume "closedTagIn raw"
    then obtain pre w1 p w2 l c post where
      raw: "raw = pre @ openingTag w1 p w2 l @ c @ js ''</file>'' @ post"
      and wf: "w1 \<noteq> []" "list_all isWhiteSpace w1" "p \<noteq> []" "of_char CHR 0x22 \<notin> set p"
        "w2 \<noteq> []" "list_all isWhiteSpace w2" "l \<noteq> []" "of_char CHR 0x22 \<notin> set l"
      unfolding closedTagIn_def by blast
    from raw have "length pre \<le> length raw" by simp
    with n have "rmatch fileRegex (drop (length pre) raw) = None"
      unfolding rsearch_None_iff by blast
    with raw have "rmatch fileRegex (openingTag w1 p w2 l @ c @ js ''</file>'' @ post) = None"
      by simp
    with closed_tag_matches [OF wf] show False by blast
  qed
next
  assume c: "\<not> closedTagIn raw"
  show "rsearch fileRegex raw = None"
  proof (rule ccontr)
    assume "rsearch fileRegex raw \<noteq> None"
    then obtain pre m where s: "rsearch fileRegex raw = Some (pre, m)" by auto
    from rsearch_sound [OF s] have raw: "raw = pre @ concat (fst m) @ snd m"
      and m: "rmatch fileRegex (drop (length pre) raw) = Some m"
      by auto
    from fileRegex_shape [OF m] obtain w1 p w2 l c' where
      d: "drop (length pre) raw = js ''<file'' @ w1 @ js ''path=\"'' @ p @ js ''\"'' @ w2
            @ js ''language=\"'' @ l @ js ''\">'' @ c' @ js ''</file>'' @ snd m"
      and wf: "w1 \<noteq> []" "list_all isWhiteSpace w1" "w2 \<noteq> []" "list_all isWhiteSpace w2"
        "p \<noteq> []" "of_char CHR 0x22 \<notin> set p" "l \<noteq> []" "of_char CHR 0x22 \<notin> set l"
      by blast
    from raw have "raw = pre @ drop (length pre) raw" by simp
    with d have "raw = pre @ openingTag w1 p w2 l @ c' @ js ''</file>'' @ snd m"
      by (simp add: openingTag_def)
    with wf have "closedTagIn raw" unfolding closedTagIn_def by blast
    with c show False by simp
  qed
qed

lemma unclosed_not_closedTagIn: "unclosed raw \<Longrightarrow> \<not> closedTagIn raw"
proof
  assume u: "unclosed raw" and "closedTagIn raw"
  then obtain pre w1 p w2 l c post where
    raw: "raw = pre @ openingTag w1 p w2 l @ c @ js ''</file>'' @ post"
    unfolding closedTagIn_def by blast
  let ?s = "openingTag w1 p w2 l @ c @ js ''</file>'' @ post"
  from raw have d: "drop (length pre) raw = ?s" by simp
  have "prefix (js ''<file'') ?s" by (simp add: openingTag_def)
  moreover have "?s = (openingTag w1 p w2 l @ c) @ js ''</file>'' @ post" by simp
  then have "occurs (js ''</file>'') ?s" unfolding occurs_iff by blast
  ultimately show False using unclosed_drop [OF u, of "length pre"] d by simp
qed


text \<open>
  C5, as stated: a raw text that contains an unclosed file tag yields no files. It fails
  when the text also holds a closed block, which is extracted, and when a later
  \<open></file>\<close> follows the unclosed tag, which then closes it with everything in between
  as content.
\<close>

theorem closed_block_then_unclosed_tag:
  "\<not> occurs (js ''</file>'') (js ''<file path=\"b\" language=\"js\">y'') \<and>
   generatedFiles (parseClaudeResponse
     (js ''<file path=\"a\" language=\"js\">x</file> and '' @ js ''<file path=\"b\" language=\"js\">y''))
     = [\<lparr>path = js ''a'', language = js ''js'', content = js ''x''\<rparr>] \<and>
   generatedFiles (parseClaudeResponse
     (js ''see <file path=\"a\" language=\"js\">x <file path=\"b\" language=\"c\">y</file> end''))
     = [\<lparr>path = js ''a'', language = js ''js'',
         content = js ''x <file path=\"b\" language=\"c\">y''\<rparr>]"
  by code_simp

text \<open>
  C5, amended: \<open>parseClaudeResponse\<close> returns no files exactly when no opening file tag
  of the raw text is followed by a closing \<open></file>\<close>, as in a text whose only file tag
  is unclosed; it then returns (no error is raised) the message \<open>cleanMessage\<close> of the
  raw text itself: the raw text with thinking blocks removed, runs of three or more
  newlines collapsed to two, and trimmed.
\<close>

theorem unclosed_tags_inert:
  "(generatedFiles (parseClaudeResponse raw) = [] \<longleftrightarrow> \<not> closedTagIn raw) \<and>
   (\<not> closedTagIn raw \<longrightarrow>
      parseClaudeResponse raw =
        \<lparr>message = cleanMessage raw, generatedFiles = [], thinking = extractThinking raw\<rparr>)"
proof (intro conjI impI)
  assume "\<not> closedTagIn raw"
  then have "rsearch fileRegex raw = None" by (simp add: rsearch_fileRegex_None_iff)
  then show "parseClaudeResponse raw =
        \<lparr>message = cleanMessage raw, generatedFiles = [], thinking = extractThinking raw\<rparr>"
    by (simp add: parseClaudeResponse_def)
next
  show "generatedFiles (parseClaudeResponse raw) = [] \<longleftrightarrow> \<not> closedTagIn raw"
  proof
    assume e: "generatedFiles (parseClaudeResponse raw) = []"
    have "rsearch fileRegex raw = None"
    proof (rule ccontr)
      assume "rsearch fileRegex raw \<noteq> None"
      from parseLoop_some_file [OF this, of raw] e show False
        by (simp add: parseClaudeResponse_def split: prod.splits)
    qed
    then show "\<not> closedTagIn raw" by (simp add: rsearch_fileRegex_None_iff)
  next
    assume "\<not> closedTagIn raw"
    then have "rsearch fileRegex raw = None" by (simp add: rsearch_fileRegex_None_iff)
    then show "generatedFiles (parseClaudeResponse raw) = []"
      by (simp add: parseClaudeResponse_def)
  qed
qed

theorem unclosed_tags_inert_witness:
  "\<not> closedTagIn (js ''a</file> <thinking>t</thinking>b <file path=\"a\" language=\"js\">x'') \<and>
   parseClaudeResponse (js ''a</file> <thinking>t</thinking>b <file path=\"a\" language=\"js\">x'') =
     \<lparr>message = js ''a</file> b <file path=\"a\" language=\"js\">x'', generatedFiles = [],
      thinking = Some (js ''t'')\<rparr>"
proof -
  have u: "unclosed (js ''a</file> <thinking>t</thinking>b <file path=\"a\" language=\"js\">x'')"
    by code_simp
  have c: "cleanMessage (js ''a</file> <thinking>t</thinking>b <file path=\"a\" language=\"js\">x'')
     = js ''a</file> b <file path=\"a\" language=\"js\">x''"
    by code_simp
  have t: "extractThinking (js ''a</file> <thinking>t</thinking>b <file path=\"a\" language=\"js\">x'')
     = Some (js ''t'')"
    by code_simp
  from unclosed_tags_inert [of "js ''a</file> <thinking>t</thinking>b <file path=\"a\" language=\"js\">x''"]
    unclosed_not_closedTagIn [OF u] c t
  show ?thesis by simp
qed

end
